theory Spec2Isabelle
  imports Main "HOL-Library.Word" "HOL-Library.Sublist"
begin

section \<open>Resumable TLS sessions: capture and replay of a handshake\<close>

text \<open>
  The Go package \<^verbatim>\<open>resumetls\<close> wraps a \<^verbatim>\<open>crypto/tls\<close> connection so that the bytes
  its handshake reads from the transport and from the randomness source are recorded
  (\<^verbatim>\<open>clientInitialize\<close>, \<^verbatim>\<open>Handshake\<close>, \<^verbatim>\<open>State\<close>) and can later be fed to a second handshake
  (\<^verbatim>\<open>clientResume\<close>). The package works on shared, mutable objects: buffers, wrapping
  readers, the \<^verbatim>\<open>tls.Config\<close> and the \<^verbatim>\<open>tls.Conn\<close>. The embedding keeps them in an explicit
  store (\<open>world\<close>), addressed by natural numbers, and every operation takes the store and
  returns the new one.
\<close>

subsection \<open>Bytes, errors, the snapshot\<close>

type_synonym byte = "8 word"
type_synonym bytes = "byte list"

text \<open>\<^verbatim>\<open>[8]byte\<close>: a sequence counter. Its zero value is eight zero bytes.\<close>

type_synonym seq = "byte list"

definition zero_seq :: seq where
  "zero_seq = [0, 0, 0, 0, 0, 0, 0, 0]"

text \<open>
  An \<^verbatim>\<open>error\<close> value is its message; a panic (nil dereference, reflection on a missing
  field) is kept apart from it.
\<close>

datatype failure = Err string | Panic string

text \<open>\<^verbatim>\<open>type State struct { conn, rand []byte; inSeq, outSeq [8]byte }\<close>\<close>

record State =
  conn :: bytes
  rand :: bytes
  inSeq :: seq
  outSeq :: seq

subsection \<open>Readers\<close>

text \<open>
  The live byte streams outside the program: the read side of a transport
  (\<^verbatim>\<open>net.Conn\<close>), a randomness source supplied in \<^verbatim>\<open>cfg.Rand\<close>, and \<^verbatim>\<open>crypto/rand.Reader\<close>.
\<close>

datatype live = Transport nat | Source nat | CryptoRand

text \<open>
  The \<^verbatim>\<open>io.Reader\<close> values the package builds:
  \<^item> \<open>RLive\<close>: a live stream;
  \<^item> \<open>RBuf b\<close>: the \<^verbatim>\<open>bytes.Buffer\<close> at address \<open>b\<close>, read from its front;
  \<^item> \<open>RTee r b\<close>: \<^verbatim>\<open>io.TeeReader(r, buf)\<close>, writing what it reads into the buffer \<open>b\<close>;
  \<^item> \<open>RMulti m r1 r2\<close>: \<^verbatim>\<open>io.MultiReader(r1, r2)\<close>; the object at address \<open>m\<close> remembers
    how many of its readers it has dropped;
  \<^item> \<open>ROv i r base\<close>: the \<^verbatim>\<open>intio.OverrideReader\<close> object at address \<open>i\<close>, built with
    \<^verbatim>\<open>OverrideReader: r, Reader: base\<close>.
\<close>

text \<open>
  Modelled from the spec: \<^verbatim>\<open>intio.OverrideReader\<close> (package \<^verbatim>\<open>internal/io\<close>, not among the
  sources), the spec's detachable source: it reads from its \<^verbatim>\<open>OverrideReader\<close> field while
  that is set and from its embedded \<^verbatim>\<open>Reader\<close> once it is \<^verbatim>\<open>nil\<close>. The package only ever
  assigns \<^verbatim>\<open>nil\<close> to the field after building the object, so the store keeps one bit per
  object: whether the field still holds \<open>r\<close>.
\<close>

datatype reader =
    RLive live
  | RBuf nat
  | RTee reader nat
  | RMulti nat reader reader
  | ROv nat reader reader

text \<open>\<^verbatim>\<open>io.Writer\<close> values installed as override writer: only \<^verbatim>\<open>ioutil.Discard\<close>.\<close>

datatype writer = Discard

text \<open>The only read error of the model is \<^verbatim>\<open>io.EOF\<close>.\<close>

datatype rerr = EOF

type_synonym rres = "bytes \<times> rerr option"

text \<open>A read on a live stream, with the bytes it returned.\<close>

type_synonym lows = "(live \<times> bytes) list"

subsection \<open>The handshake engine\<close>

text \<open>
  \<^verbatim>\<open>crypto/tls\<close> is an external collaborator. What the package relies on is that a
  handshake reads from its connection, draws from \<^verbatim>\<open>config.Rand\<close>, writes to its
  connection, and ends in success or failure with the two record counters at some value.
  An engine's handshake is therefore any finite strategy over these three operations,
  each continuation depending on what the read returned.
\<close>

datatype script =
    Done seq seq
  | Fail string seq seq
  | ReadConn nat "rres \<Rightarrow> script"
  | ReadRand nat "rres \<Rightarrow> script"
  | WriteConn bytes script

datatype role = ServerSide | ClientSide

text \<open>
  The linked \<^verbatim>\<open>crypto/tls\<close>: what its handshake does on this connection, and whether
  \<^verbatim>\<open>tls.Conn\<close> has the fields \<^verbatim>\<open>in.seq\<close> and \<^verbatim>\<open>out.seq\<close> that \<^verbatim>\<open>setSeq\<close> and \<^verbatim>\<open>getSeq\<close>
  look up by name.
\<close>

record tls_impl =
  hs_script :: script
  seq_fields :: bool

text \<open>
  A \<^verbatim>\<open>tls.Conn\<close>: the connection and the configuration object it was built with (both by
  reference), its role, the counters, and the outcome of its handshake
  (\<^verbatim>\<open>isHandshakeComplete\<close>, \<^verbatim>\<open>handshakeErr\<close>).
\<close>

record engine =
  e_conn :: nat
  e_cfg :: nat
  e_role :: role
  e_script :: script
  e_seq_fields :: bool
  e_in :: seq
  e_out :: seq
  e_done :: bool
  e_err :: "string option"

subsection \<open>The store\<close>

text \<open>
  Modelled from the spec: \<^verbatim>\<open>intnet.OverrideConn\<close> (package \<^verbatim>\<open>internal/net\<close>, not among the
  sources). A connection whose reads go to \<^verbatim>\<open>OverrideReader\<close> and whose writes go to
  \<^verbatim>\<open>OverrideWriter\<close> while these are set, and to the embedded \<^verbatim>\<open>Conn\<close> once they are
  \<^verbatim>\<open>nil\<close> (the spec's detachable duplicating and replay sources, and its discarding sink).
\<close>

record OverrideConn =
  oc_Conn :: nat
  oc_OverrideReader :: "reader option"
  oc_OverrideWriter :: "writer option"

record world =
  live_in :: "live \<Rightarrow> bytes list"
  sent :: "nat \<Rightarrow> bytes"
  bufs :: "nat \<Rightarrow> bytes"
  next_buf :: nat
  multi_pos :: "nat \<Rightarrow> nat"
  next_multi :: nat
  ov_attached :: "nat \<Rightarrow> bool"
  next_ov :: nat
  ovconns :: "nat \<Rightarrow> OverrideConn"
  next_ovconn :: nat
  cfg_Rand :: "nat \<Rightarrow> reader option"
  engines :: "nat \<Rightarrow> engine"
  next_engine :: nat

text \<open>
  \<open>live_in w l\<close> is what the live stream \<open>l\<close> will still deliver, cut into the pieces
  that successive \<^verbatim>\<open>Read\<close> calls can return at most (a \<^verbatim>\<open>Read\<close> may return fewer bytes
  than asked for); \<open>sent w c\<close> is what has been written to transport \<open>c\<close>;
  \<open>cfg_Rand w c\<close> is the field \<^verbatim>\<open>Rand\<close> of the \<^verbatim>\<open>tls.Config\<close> at address \<open>c\<close>.
\<close>

text \<open>\<^verbatim>\<open>&bytes.Buffer{}\<close> and \<^verbatim>\<open>bytes.NewBuffer(bs)\<close>: a new buffer holding \<open>bs\<close>.\<close>

definition NewBuffer :: "bytes \<Rightarrow> world \<Rightarrow> nat \<times> world" where
  "NewBuffer bs w =
     (next_buf w, w\<lparr>bufs := (bufs w)(next_buf w := bs), next_buf := Suc (next_buf w)\<rparr>)"

definition new_multi :: "world \<Rightarrow> nat \<times> world" where
  "new_multi w =
     (next_multi w,
      w\<lparr>multi_pos := (multi_pos w)(next_multi w := 0), next_multi := Suc (next_multi w)\<rparr>)"

definition new_ov :: "world \<Rightarrow> nat \<times> world" where
  "new_ov w =
     (next_ov w, w\<lparr>ov_attached := (ov_attached w)(next_ov w := True), next_ov := Suc (next_ov w)\<rparr>)"

definition new_ovconn :: "OverrideConn \<Rightarrow> world \<Rightarrow> nat \<times> world" where
  "new_ovconn oc w =
     (next_ovconn w,
      w\<lparr>ovconns := (ovconns w)(next_ovconn w := oc), next_ovconn := Suc (next_ovconn w)\<rparr>)"

subsection \<open>Reading\<close>

text \<open>
  A \<^verbatim>\<open>Read\<close> with a destination of \<open>n\<close> bytes returns the bytes read and the error, the
  live reads it caused, and the new store.

  \<^item> A live stream hands out its next piece, at most \<open>n\<close> bytes of it, and \<^verbatim>\<open>io.EOF\<close>
    when nothing is left.
  \<^item> \<^verbatim>\<open>bytes.Buffer.Read\<close>: on an empty buffer \<^verbatim>\<open>0, nil\<close> for an empty destination and
    \<^verbatim>\<open>0, io.EOF\<close> otherwise; else the front of the buffer.
  \<^item> \<^verbatim>\<open>teeReader.Read\<close>: reads, and writes what it got (if anything) to the buffer.
  \<^item> \<^verbatim>\<open>multiReader.Read\<close>: reads from the first reader not yet dropped, drops it when it
    reports \<^verbatim>\<open>io.EOF\<close>, returns as soon as a read gave bytes or an error other than
    \<^verbatim>\<open>io.EOF\<close>, and hides the \<^verbatim>\<open>io.EOF\<close> of a reader that is not the last.
\<close>

definition live_Read :: "live \<Rightarrow> nat \<Rightarrow> world \<Rightarrow> rres \<times> lows \<times> world" where
  "live_Read l n w =
     (case live_in w l of
        [] \<Rightarrow> (([], Some EOF), [(l, [])], w)
      | c # cs \<Rightarrow>
          ((take n c, None), [(l, take n c)],
           w\<lparr>live_in := (live_in w)(l := (if drop n c = [] then cs else drop n c # cs))\<rparr>))"

definition Buffer_Read :: "nat \<Rightarrow> nat \<Rightarrow> world \<Rightarrow> rres \<times> lows \<times> world" where
  "Buffer_Read b n w =
     (if bufs w b = [] then (([], if n = 0 then None else Some EOF), [], w)
      else ((take n (bufs w b), None), [], w\<lparr>bufs := (bufs w)(b := drop n (bufs w b))\<rparr>))"

definition Buffer_Write :: "nat \<Rightarrow> bytes \<Rightarrow> world \<Rightarrow> world" where
  "Buffer_Write b bs w = w\<lparr>bufs := (bufs w)(b := bufs w b @ bs)\<rparr>"

text \<open>
  Modelled from the spec: \<^verbatim>\<open>intio.OverrideReader.Read\<close> (package \<^verbatim>\<open>internal/io\<close>, not among
  the sources) is the last equation of \<open>Read\<close>: the override reader while attached, the
  embedded reader after. The other equations are the readers of the Go library.
\<close>

primrec Read :: "reader \<Rightarrow> nat \<Rightarrow> world \<Rightarrow> rres \<times> lows \<times> world" where
  "Read (RLive l) n w = live_Read l n w"
| "Read (RBuf b) n w = Buffer_Read b n w"
| "Read (RTee r b) n w =
     (case Read r n w of
        ((bs, e), ls, w1) \<Rightarrow> ((bs, e), ls, if bs \<noteq> [] then Buffer_Write b bs w1 else w1))"
| "Read (RMulti m r1 r2) n w =
     (if multi_pos w m = 0 then
        (case Read r1 n w of
           ((bs1, e1), ls1, w1) \<Rightarrow>
             if e1 = Some EOF then
               (let w1' = w1\<lparr>multi_pos := (multi_pos w1)(m := 1)\<rparr> in
                if bs1 \<noteq> [] then ((bs1, None), ls1, w1')
                else
                  (case Read r2 n w1' of
                     ((bs2, e2), ls2, w2) \<Rightarrow>
                       if e2 = Some EOF then
                         ((bs2, Some EOF), ls1 @ ls2, w2\<lparr>multi_pos := (multi_pos w2)(m := 2)\<rparr>)
                       else ((bs2, e2), ls1 @ ls2, w2)))
             else ((bs1, e1), ls1, w1))
      else if multi_pos w m = 1 then
        (case Read r2 n w of
           ((bs2, e2), ls2, w2) \<Rightarrow>
             if e2 = Some EOF then
               ((bs2, Some EOF), ls2, w2\<lparr>multi_pos := (multi_pos w2)(m := 2)\<rparr>)
             else ((bs2, e2), ls2, w2))
      else (([], Some EOF), [], w))"
| "Read (ROv i r base) n w = (if ov_attached w i then Read r n w else Read base n w)"

subsection \<open>The connection handed to the engine\<close>

text \<open>
  Modelled from the spec: \<^verbatim>\<open>intnet.OverrideConn.Read\<close> (package \<^verbatim>\<open>internal/net\<close>, not among
  the sources): from the override reader while it is set, from the transport after.
\<close>

definition OverrideConn_Read :: "nat \<Rightarrow> nat \<Rightarrow> world \<Rightarrow> rres \<times> lows \<times> world" where
  "OverrideConn_Read oc n w =
     (case oc_OverrideReader (ovconns w oc) of
        Some r \<Rightarrow> Read r n w
      | None \<Rightarrow> Read (RLive (Transport (oc_Conn (ovconns w oc)))) n w)"

text \<open>
  Modelled from the spec: \<^verbatim>\<open>intnet.OverrideConn.Write\<close> (package \<^verbatim>\<open>internal/net\<close>, not among
  the sources): to the override writer while it is set, to the transport after. The result
  says where the bytes went: the transport, or nowhere (\<open>None\<close>) when \<^verbatim>\<open>ioutil.Discard\<close>
  took them.
\<close>

definition OverrideConn_Write :: "nat \<Rightarrow> bytes \<Rightarrow> world \<Rightarrow> nat option \<times> world" where
  "OverrideConn_Write oc bs w =
     (case oc_OverrideWriter (ovconns w oc) of
        Some Discard \<Rightarrow> (None, w)
      | None \<Rightarrow>
          (let c = oc_Conn (ovconns w oc)
           in (Some c, w\<lparr>sent := (sent w)(c := sent w c @ bs)\<rparr>)))"

text \<open>
  \<^verbatim>\<open>rnd := cfg.Rand; if rnd == nil { rnd = rand.Reader }\<close>, which is also how
  \<^verbatim>\<open>crypto/tls\<close> picks its randomness source when it needs one.
\<close>

definition config_rand :: "nat \<Rightarrow> world \<Rightarrow> reader" where
  "config_rand cfg w = (case cfg_Rand w cfg of None \<Rightarrow> RLive CryptoRand | Some r \<Rightarrow> r)"

subsection \<open>Running a handshake\<close>

text \<open>
  What the engine did, in order: each read with the bytes the engine received and the
  live reads made to serve it, each write with the transport it reached (if any).
\<close>

datatype io_event =
    ConnRead bytes lows
  | RandRead bytes lows
  | ConnWrite bytes "nat option"

type_synonym outcome = "string option \<times> seq \<times> seq"

primrec run :: "script \<Rightarrow> nat \<Rightarrow> nat \<Rightarrow> world \<Rightarrow> outcome \<times> io_event list \<times> world" where
  "run (Done i out) oc cfg w = ((None, i, out), [], w)"
| "run (Fail msg i out) oc cfg w = ((Some msg, i, out), [], w)"
| "run (ReadConn n k) oc cfg w =
     (case OverrideConn_Read oc n w of
        (res, ls, w1) \<Rightarrow>
          (case run (k res) oc cfg w1 of
             (r, evs, w2) \<Rightarrow> (r, ConnRead (fst res) ls # evs, w2)))"
| "run (ReadRand n k) oc cfg w =
     (case Read (config_rand cfg w) n w of
        (res, ls, w1) \<Rightarrow>
          (case run (k res) oc cfg w1 of
             (r, evs, w2) \<Rightarrow> (r, RandRead (fst res) ls # evs, w2)))"
| "run (WriteConn bs k) oc cfg w =
     (case OverrideConn_Write oc bs w of
        (t, w1) \<Rightarrow>
          (case run k oc cfg w1 of
             (r, evs, w2) \<Rightarrow> (r, ConnWrite bs t # evs, w2)))"

text \<open>
  \<^verbatim>\<open>tls.Server(conn, config)\<close>: a new server-side \<^verbatim>\<open>tls.Conn\<close> that keeps the two
  references; its counters are zero. \<^verbatim>\<open>tls.Client\<close> would differ in the role.
\<close>

definition tls_Server :: "nat \<Rightarrow> nat \<Rightarrow> tls_impl \<Rightarrow> world \<Rightarrow> nat \<times> world" where
  "tls_Server oc cfg impl w =
     (next_engine w,
      w\<lparr>engines := (engines w)(next_engine w :=
           \<lparr>e_conn = oc, e_cfg = cfg, e_role = ServerSide, e_script = hs_script impl,
            e_seq_fields = seq_fields impl, e_in = zero_seq, e_out = zero_seq,
            e_done = False, e_err = None\<rparr>),
        next_engine := Suc (next_engine w)\<rparr>)"

text \<open>
  \<^verbatim>\<open>(*tls.Conn).Handshake\<close>: nothing to do once complete; a failed handshake keeps
  returning its error; otherwise the handshake runs, once.
\<close>

definition tls_Handshake :: "nat \<Rightarrow> world \<Rightarrow> string option \<times> io_event list \<times> world" where
  "tls_Handshake eid w =
     (let e = engines w eid in
      if e_done e then (None, [], w)
      else
        (case e_err e of
           Some msg \<Rightarrow> (Some msg, [], w)
         | None \<Rightarrow>
             (case run (e_script e) (e_conn e) (e_cfg e) w of
                ((r, i, out), evs, w1) \<Rightarrow>
                  (r, evs,
                   w1\<lparr>engines := (engines w1)(eid :=
                        (engines w1 eid)\<lparr>e_in := i, e_out := out,
                                         e_done := (r = None), e_err := r\<rparr>)\<rparr>))))"

subsection \<open>The sequence accessor\<close>

text \<open>
  \<^verbatim>\<open>reflect.ValueOf(conn).Elem().FieldByName(name)\<close>: the field of that name of the
  \<^verbatim>\<open>tls.Conn\<close>, or the zero \<^verbatim>\<open>Value\<close> (\<open>None\<close>) when the struct has none.
\<close>

definition FieldByName :: "nat \<Rightarrow> string \<Rightarrow> world \<Rightarrow> (nat \<times> string) option" where
  "FieldByName eid name w =
     (if e_seq_fields (engines w eid) \<and> (name = ''in'' \<or> name = ''out'')
      then Some (eid, name) else None)"

text \<open>
  Modelled from the spec: \<^verbatim>\<open>intref.FieldToInterface\<close> (package \<^verbatim>\<open>internal/reflect\<close>, not
  among the sources), the reading half of the spec's sequence accessor: the value of the
  counter, with no transformation. On a field that does not exist there is nothing to
  read: a panic.
\<close>

definition FieldToInterface :: "(nat \<times> string) option \<Rightarrow> string \<Rightarrow> world \<Rightarrow> failure + seq" where
  "FieldToInterface v field w =
     (case v of
        None \<Rightarrow> Inl (Panic ''reflect: call on zero Value'')
      | Some (eid, half) \<Rightarrow>
          if field = ''seq'' then Inr (if half = ''in'' then e_in (engines w eid)
                                       else e_out (engines w eid))
          else Inl (Panic ''reflect: call on zero Value''))"

text \<open>
  Modelled from the spec: \<^verbatim>\<open>intref.SetFieldValue\<close> (package \<^verbatim>\<open>internal/reflect\<close>, not among
  the sources), the writing half of the spec's sequence accessor: the counter is
  overwritten with the given value, with no transformation. On a field that does not
  exist there is nothing to write: a panic.
\<close>

definition SetFieldValue :: "(nat \<times> string) option \<Rightarrow> string \<Rightarrow> seq \<Rightarrow> world \<Rightarrow> failure + world" where
  "SetFieldValue v field x w =
     (case v of
        None \<Rightarrow> Inl (Panic ''reflect: call on zero Value'')
      | Some (eid, half) \<Rightarrow>
          if field = ''seq'' then
            Inr (w\<lparr>engines := (engines w)(eid :=
                   (if half = ''in'' then (engines w eid)\<lparr>e_in := x\<rparr>
                    else (engines w eid)\<lparr>e_out := x\<rparr>))\<rparr>)
          else Inl (Panic ''reflect: call on zero Value''))"

text \<open>
  \<^verbatim>\<open>setSeq\<close> and \<^verbatim>\<open>getSeq\<close>: both fields are looked up by name, then the counter \<^verbatim>\<open>seq\<close> of
  each is written, or read.
\<close>

definition setSeq :: "nat \<Rightarrow> seq \<Rightarrow> seq \<Rightarrow> world \<Rightarrow> failure + world" where
  "setSeq eid i out w =
     (let fIn = FieldByName eid ''in'' w;
          fOut = FieldByName eid ''out'' w
      in case SetFieldValue fIn ''seq'' i w of
           Inl p \<Rightarrow> Inl p
         | Inr w1 \<Rightarrow> SetFieldValue fOut ''seq'' out w1)"

definition getSeq :: "nat \<Rightarrow> world \<Rightarrow> failure + (seq \<times> seq)" where
  "getSeq eid w =
     (let fIn = FieldByName eid ''in'' w
      in case FieldToInterface fIn ''seq'' w of
           Inl p \<Rightarrow> Inl p
         | Inr i \<Rightarrow>
             (let fOut = FieldByName eid ''out'' w
              in case FieldToInterface fOut ''seq'' w of
                   Inl p \<Rightarrow> Inl p
                 | Inr out \<Rightarrow> Inr (i, out)))"

subsection \<open>The session\<close>

text \<open>
  \<^verbatim>\<open>type Conn struct\<close>: the flag, the two wrappers (\<^verbatim>\<open>nil\<close> in a resumed session), the two
  buffers and the embedded \<^verbatim>\<open>*tls.Conn\<close>, all by reference.
\<close>

record Conn =
  handshaked :: bool
  overrideRand :: "nat option"
  overrideConn :: "nat option"
  connBuffer :: nat
  randBuffer :: nat
  tlsConn :: nat

definition clientInitialize :: "nat \<Rightarrow> nat \<Rightarrow> tls_impl \<Rightarrow> world \<Rightarrow> Conn \<times> world" where
  "clientInitialize c cfg impl w =
     (let (connBuf, w1) = NewBuffer [] w;
          (randBuf, w2) = NewBuffer [] w1;
          rnd = config_rand cfg w2;
          (ov, w3) = new_ov w2;
          ovRand = ROv ov (RTee rnd randBuf) rnd;
          (ovConn, w4) = new_ovconn
             \<lparr>oc_Conn = c, oc_OverrideReader = Some (RTee (RLive (Transport c)) connBuf),
              oc_OverrideWriter = None\<rparr> w3;
          w5 = w4\<lparr>cfg_Rand := (cfg_Rand w4)(cfg := Some ovRand)\<rparr>;
          (eid, w6) = tls_Server ovConn cfg impl w5
      in (\<lparr>handshaked = False, overrideRand = Some ov, overrideConn = Some ovConn,
           connBuffer = connBuf, randBuffer = randBuf, tlsConn = eid\<rparr>, w6))"

definition clientResume ::
  "nat \<Rightarrow> nat \<Rightarrow> State \<Rightarrow> tls_impl \<Rightarrow> world \<Rightarrow> (failure + Conn) \<times> io_event list \<times> world" where
  "clientResume c cfg state impl w =
     (let rnd = config_rand cfg w;
          (rb, w1) = NewBuffer (rand state) w;
          (rm, w2) = new_multi w1;
          (ov, w3) = new_ov w2;
          ovRand = ROv ov (RMulti rm (RBuf rb) rnd) rnd;
          (cb, w4) = NewBuffer (conn state) w3;
          (cm, w5) = new_multi w4;
          (ovConn, w6) = new_ovconn
             \<lparr>oc_Conn = c,
              oc_OverrideReader = Some (RMulti cm (RBuf cb) (RLive (Transport c))),
              oc_OverrideWriter = Some Discard\<rparr> w5;
          w7 = w6\<lparr>cfg_Rand := (cfg_Rand w6)(cfg := Some ovRand)\<rparr>;
          (cli, w8) = tls_Server ovConn cfg impl w7
      in case tls_Handshake cli w8 of
           (Some msg, evs, w9) \<Rightarrow> (Inl (Err (''handshake er: '' @ msg)), evs, w9)
         | (None, evs, w9) \<Rightarrow>
             (let w10 = w9\<lparr>ov_attached := (ov_attached w9)(ov := False)\<rparr>;
                  w11 = w10\<lparr>ovconns := (ovconns w10)(ovConn :=
                           (ovconns w10 ovConn)\<lparr>oc_OverrideReader := None,
                                                 oc_OverrideWriter := None\<rparr>)\<rparr>
              in case setSeq cli (inSeq state) (outSeq state) w11 of
                   Inl p \<Rightarrow> (Inl p, evs, w11)
                 | Inr w12 \<Rightarrow>
                     (let (connBuf, w13) = NewBuffer (conn state) w12;
                          (randBuf, w14) = NewBuffer (rand state) w13
                      in (Inr \<lparr>handshaked = True, overrideRand = None, overrideConn = None,
                               connBuffer = connBuf, randBuffer = randBuf, tlsConn = cli\<rparr>,
                          evs, w14))))"

definition Server ::
  "nat \<Rightarrow> nat \<Rightarrow> State option \<Rightarrow> tls_impl \<Rightarrow> world \<Rightarrow> (failure + Conn) \<times> io_event list \<times> world" where
  "Server c cfg state impl w =
     (case state of
        Some st \<Rightarrow> clientResume c cfg st impl w
      | None \<Rightarrow> (case clientInitialize c cfg impl w of (s, w1) \<Rightarrow> (Inr s, [], w1)))"

definition Client ::
  "nat \<Rightarrow> nat \<Rightarrow> State option \<Rightarrow> tls_impl \<Rightarrow> world \<Rightarrow> (failure + Conn) \<times> io_event list \<times> world" where
  "Client c cfg state impl w =
     (case state of
        Some st \<Rightarrow> clientResume c cfg st impl w
      | None \<Rightarrow> (case clientInitialize c cfg impl w of (s, w1) \<Rightarrow> (Inr s, [], w1)))"

text \<open>
  \<^verbatim>\<open>(*Conn).Handshake\<close>. The session is mutated in place, so the new session is returned
  with the error (\<open>None\<close> for \<^verbatim>\<open>nil\<close>). Detaching through a \<^verbatim>\<open>nil\<close> wrapper is a nil
  dereference, after the flag has been set.
\<close>

definition Handshake :: "Conn \<Rightarrow> world \<Rightarrow> failure option \<times> io_event list \<times> Conn \<times> world" where
  "Handshake s w =
     (if handshaked s then (None, [], s, w)
      else
        (case tls_Handshake (tlsConn s) w of
           (Some msg, evs, w1) \<Rightarrow>
             (let (connBuf, w2) = NewBuffer [] w1;
                  (randBuf, w3) = NewBuffer [] w2
              in (Some (Err msg), evs, s\<lparr>connBuffer := connBuf, randBuffer := randBuf\<rparr>, w3))
         | (None, evs, w1) \<Rightarrow>
             (let s1 = s\<lparr>handshaked := True\<rparr>
              in case overrideRand s1 of
                   None \<Rightarrow> (Some (Panic ''nil pointer dereference''), evs, s1, w1)
                 | Some ov \<Rightarrow>
                     (let w2 = w1\<lparr>ov_attached := (ov_attached w1)(ov := False)\<rparr>
                      in case overrideConn s1 of
                           None \<Rightarrow> (Some (Panic ''nil pointer dereference''), evs, s1, w2)
                         | Some oc \<Rightarrow>
                             (None, evs, s1,
                              w2\<lparr>ovconns := (ovconns w2)(oc :=
                                   (ovconns w2 oc)\<lparr>oc_OverrideReader := None\<rparr>)\<rparr>)))))"

text \<open>\<^verbatim>\<open>(*Conn).State\<close>: the counters are read first, then the two buffers.\<close>

definition State_of :: "Conn \<Rightarrow> world \<Rightarrow> failure + State" where
  "State_of s w =
     (case getSeq (tlsConn s) w of
        Inl p \<Rightarrow> Inl p
      | Inr (i, out) \<Rightarrow>
          Inr \<lparr>conn = bufs w (connBuffer s), rand = bufs w (randBuffer s),
               inSeq = i, outSeq = out\<rparr>)"

section \<open>What the claims speak about\<close>

subsection \<open>The objects a reader can reach\<close>

text \<open>The buffers and the multi-readers that occur in a reader.\<close>

primrec reader_bufs :: "reader \<Rightarrow> nat set" where
  "reader_bufs (RLive l) = {}"
| "reader_bufs (RBuf b) = {b}"
| "reader_bufs (RTee r b) = insert b (reader_bufs r)"
| "reader_bufs (RMulti m r1 r2) = reader_bufs r1 \<union> reader_bufs r2"
| "reader_bufs (ROv i r base) = reader_bufs r \<union> reader_bufs base"

primrec reader_multis :: "reader \<Rightarrow> nat set" where
  "reader_multis (RLive l) = {}"
| "reader_multis (RBuf b) = {}"
| "reader_multis (RTee r b) = reader_multis r"
| "reader_multis (RMulti m r1 r2) = insert m (reader_multis r1 \<union> reader_multis r2)"
| "reader_multis (ROv i r base) = reader_multis r \<union> reader_multis base"

text \<open>
  \<open>wiring_eq w w'\<close>: from \<open>w\<close> to \<open>w'\<close> no object was created and no reference changed;
  only the contents of streams and buffers, the positions of multi-readers and what was
  sent may differ. \<open>touches_only B M w w'\<close>: moreover nothing was sent, and only the
  buffers in \<open>B\<close> and the multi-readers in \<open>M\<close> changed.
\<close>

definition wiring_eq :: "world \<Rightarrow> world \<Rightarrow> bool" where
  "wiring_eq w w' \<longleftrightarrow>
     next_buf w' = next_buf w \<and> next_multi w' = next_multi w \<and>
     ov_attached w' = ov_attached w \<and> next_ov w' = next_ov w \<and>
     ovconns w' = ovconns w \<and> next_ovconn w' = next_ovconn w \<and>
     cfg_Rand w' = cfg_Rand w \<and> engines w' = engines w \<and> next_engine w' = next_engine w"

definition touches_only :: "nat set \<Rightarrow> nat set \<Rightarrow> world \<Rightarrow> world \<Rightarrow> bool" where
  "touches_only B M w w' \<longleftrightarrow>
     wiring_eq w w' \<and> sent w' = sent w \<and>
     (\<forall>b. b \<notin> B \<longrightarrow> bufs w' b = bufs w b) \<and>
     (\<forall>m. m \<notin> M \<longrightarrow> multi_pos w' m = multi_pos w m)"

subsection \<open>What a handshake consumed\<close>

text \<open>
  The bytes the engine received from its connection, the bytes it received from the
  randomness source, and the bytes that left the live streams while its connection reads
  were served; \<open>transport_only c\<close> holds when these came from transport \<open>c\<close> alone.
\<close>

fun conn_bytes :: "io_event list \<Rightarrow> bytes" where
  "conn_bytes [] = []"
| "conn_bytes (ConnRead bs ls # evs) = bs @ conn_bytes evs"
| "conn_bytes (e # evs) = conn_bytes evs"

fun rand_bytes :: "io_event list \<Rightarrow> bytes" where
  "rand_bytes [] = []"
| "rand_bytes (RandRead bs ls # evs) = bs @ rand_bytes evs"
| "rand_bytes (e # evs) = rand_bytes evs"

fun transport_bytes :: "io_event list \<Rightarrow> bytes" where
  "transport_bytes [] = []"
| "transport_bytes (ConnRead bs ls # evs) = concat (map snd ls) @ transport_bytes evs"
| "transport_bytes (e # evs) = transport_bytes evs"

fun transport_only :: "nat \<Rightarrow> io_event list \<Rightarrow> bool" where
  "transport_only c [] = True"
| "transport_only c (ConnRead bs ls # evs) = (list_all (\<lambda>l. fst l = Transport c) ls \<and> transport_only c evs)"
| "transport_only c (e # evs) = transport_only c evs"

text \<open>No write of the handshake reached a transport.\<close>

fun discarded :: "io_event list \<Rightarrow> bool" where
  "discarded [] = True"
| "discarded (ConnWrite bs t # evs) = (t = None \<and> discarded evs)"
| "discarded (e # evs) = discarded evs"

text \<open>
  Replay before live: with \<open>rem\<close> the part of the recorded bytes not yet served, a read
  is served from the front of \<open>rem\<close> and causes no live read as long as \<open>rem\<close> is not
  empty; on the transport side, once \<open>rem\<close> is empty, the engine receives exactly what
  the live reads returned.
\<close>

fun conn_replay_first :: "bytes \<Rightarrow> io_event list \<Rightarrow> bool" where
  "conn_replay_first rem [] = True"
| "conn_replay_first rem (ConnRead bs ls # evs) =
     (if rem = [] then bs = concat (map snd ls) \<and> conn_replay_first [] evs
      else ls = [] \<and> prefix bs rem \<and> conn_replay_first (drop (length bs) rem) evs)"
| "conn_replay_first rem (e # evs) = conn_replay_first rem evs"

fun rand_replay_first :: "bytes \<Rightarrow> io_event list \<Rightarrow> bool" where
  "rand_replay_first rem [] = True"
| "rand_replay_first rem (RandRead bs ls # evs) =
     (if rem = [] then rand_replay_first [] evs
      else ls = [] \<and> prefix bs rem \<and> rand_replay_first (drop (length bs) rem) evs)"
| "rand_replay_first rem (e # evs) = rand_replay_first rem evs"

subsection \<open>The wiring of a session\<close>

text \<open>
  The store of a capture session that has not finished its handshake: the connection of
  the engine tees transport \<open>c\<close> into the buffer \<open>cb\<close>, the configuration holds an
  attached override reader that tees into \<open>rb\<close>, and the source below that reader reaches
  neither buffer.
\<close>

definition capture_wired :: "world \<Rightarrow> nat \<Rightarrow> nat \<Rightarrow> nat \<Rightarrow> nat \<Rightarrow> nat \<Rightarrow> bool" where
  "capture_wired w oc cfg c cb rb \<longleftrightarrow>
     oc_Conn (ovconns w oc) = c \<and>
     oc_OverrideReader (ovconns w oc) = Some (RTee (RLive (Transport c)) cb) \<and>
     (\<exists>i rnd. cfg_Rand w cfg = Some (ROv i (RTee rnd rb) rnd) \<and> ov_attached w i \<and>
              cb \<notin> reader_bufs rnd \<and> rb \<notin> reader_bufs rnd) \<and>
     cb \<noteq> rb"

text \<open>
  The store of a resuming session during its handshake: both sides read through a
  multi-reader, first the buffer with the recorded bytes, then the live source;
  \<open>replay_pending\<close>: a multi-reader that has left its buffer has left it empty.
\<close>

definition replay_wired ::
  "world \<Rightarrow> nat \<Rightarrow> nat \<Rightarrow> nat \<Rightarrow> nat \<Rightarrow> nat \<Rightarrow> nat \<Rightarrow> nat \<Rightarrow> bool" where
  "replay_wired w oc cfg c cb cm rb rm \<longleftrightarrow>
     oc_OverrideReader (ovconns w oc) = Some (RMulti cm (RBuf cb) (RLive (Transport c))) \<and>
     (\<exists>i rnd. cfg_Rand w cfg = Some (ROv i (RMulti rm (RBuf rb) rnd) rnd) \<and> ov_attached w i \<and>
              cb \<notin> reader_bufs rnd \<and> rb \<notin> reader_bufs rnd \<and>
              cm \<notin> reader_multis rnd \<and> rm \<notin> reader_multis rnd) \<and>
     cb \<noteq> rb \<and> cm \<noteq> rm"

definition replay_pending :: "world \<Rightarrow> nat \<Rightarrow> nat \<Rightarrow> bool" where
  "replay_pending w m b \<longleftrightarrow> multi_pos w m = 0 \<or> bufs w b = []"

text \<open>
  Allocation hands out new objects: the source a configuration holds in \<^verbatim>\<open>Rand\<close> reaches
  only buffers and multi-readers allocated so far.
\<close>

definition world_ok :: "world \<Rightarrow> bool" where
  "world_ok w \<longleftrightarrow>
     (\<forall>cfg. (\<forall>b\<in>reader_bufs (config_rand cfg w). b < next_buf w) \<and>
            (\<forall>m\<in>reader_multis (config_rand cfg w). m < next_multi w))"

text \<open>
  The store in which \<^verbatim>\<open>clientResume\<close> starts the handshake: two buffers with the recorded
  bytes, two multi-readers, the override reader, the connection with the discarding
  writer, the overwritten \<^verbatim>\<open>cfg.Rand\<close>, and the new engine.
\<close>

definition resume_start :: "nat \<Rightarrow> nat \<Rightarrow> State \<Rightarrow> tls_impl \<Rightarrow> world \<Rightarrow> world" where
  "resume_start c cfg st impl w =
     w\<lparr>ov_attached := (ov_attached w)(next_ov w := True),
       next_ov := Suc (next_ov w),
       bufs := (bufs w)(next_buf w := rand st, Suc (next_buf w) := conn st),
       next_buf := Suc (Suc (next_buf w)),
       multi_pos := (multi_pos w)(next_multi w := 0, Suc (next_multi w) := 0),
       next_multi := Suc (Suc (next_multi w)),
       ovconns := (ovconns w)(next_ovconn w :=
          \<lparr>oc_Conn = c,
           oc_OverrideReader =
             Some (RMulti (Suc (next_multi w)) (RBuf (Suc (next_buf w))) (RLive (Transport c))),
           oc_OverrideWriter = Some Discard\<rparr>),
       next_ovconn := Suc (next_ovconn w),
       cfg_Rand := (cfg_Rand w)(cfg :=
          Some (ROv (next_ov w) (RMulti (next_multi w) (RBuf (next_buf w)) (config_rand cfg w))
                  (config_rand cfg w))),
       engines := (engines w)(next_engine w :=
          \<lparr>e_conn = next_ovconn w, e_cfg = cfg, e_role = ServerSide, e_script = hs_script impl,
           e_seq_fields = seq_fields impl, e_in = zero_seq, e_out = zero_seq,
           e_done = False, e_err = None\<rparr>),
       next_engine := Suc (next_engine w)\<rparr>"

subsection \<open>Example runs\<close>

text \<open>
  A store with three transports (transport 2 delivers a record the example engine
  rejects), \<^verbatim>\<open>crypto/rand.Reader\<close> delivering \<open>9, 8, 7, 6\<close>, and configurations whose
  \<^verbatim>\<open>Rand\<close> is \<^verbatim>\<open>nil\<close>.
\<close>

definition seq_a :: seq where "seq_a = [0, 0, 0, 0, 0, 0, 0, 1]"

definition seq_b :: seq where "seq_b = [0, 0, 0, 0, 0, 0, 0, 2]"

definition seq_c :: seq where "seq_c = [0, 0, 0, 0, 0, 0, 0, 7]"

definition ex_engine :: engine where
  "ex_engine = \<lparr>e_conn = 0, e_cfg = 0, e_role = ServerSide, e_script = Done zero_seq zero_seq,
     e_seq_fields = True, e_in = zero_seq, e_out = zero_seq, e_done = False, e_err = None\<rparr>"

definition ex_w0 :: world where
  "ex_w0 =
     \<lparr>live_in = (\<lambda>l. case l of Transport c \<Rightarrow> (if c = 2 then [[6, 7, 8]] else [[1, 2, 3], [4, 5]])
                          | Source k \<Rightarrow> []
                          | CryptoRand \<Rightarrow> [[9, 8, 7, 6]]),
      sent = (\<lambda>c. []), bufs = (\<lambda>b. []), next_buf = 0,
      multi_pos = (\<lambda>m. 0), next_multi = 0,
      ov_attached = (\<lambda>i. False), next_ov = 0,
      ovconns = (\<lambda>k. \<lparr>oc_Conn = 0, oc_OverrideReader = None, oc_OverrideWriter = None\<rparr>),
      next_ovconn = 0,
      cfg_Rand = (\<lambda>c. None),
      engines = (\<lambda>e. ex_engine), next_engine = 0\<rparr>"

text \<open>
  An engine that reads a record of three bytes, draws two random bytes, writes one byte
  and accepts the record \<open>1, 2, 3\<close> only; it has counted one record in and two out by
  then. The second engine reads and draws in smaller and larger pieces. The third is the
  first one in a \<^verbatim>\<open>crypto/tls\<close> whose \<^verbatim>\<open>tls.Conn\<close> lacks the counter fields.
\<close>

definition ex_script :: script where
  "ex_script =
     ReadConn 3 (\<lambda>r. ReadRand 2 (\<lambda>q. WriteConn [42]
       (if fst r = [1, 2, 3] then Done seq_a seq_b else Fail ''bad record'' seq_a seq_b)))"

definition ex_impl :: tls_impl where
  "ex_impl = \<lparr>hs_script = ex_script, seq_fields = True\<rparr>"

definition ex_script2 :: script where
  "ex_script2 =
     ReadConn 2 (\<lambda>r. ReadConn 2 (\<lambda>r2. ReadRand 4 (\<lambda>q. ReadRand 1 (\<lambda>q2.
       Done seq_a seq_b))))"

definition ex_impl2 :: tls_impl where
  "ex_impl2 = \<lparr>hs_script = ex_script2, seq_fields = True\<rparr>"

definition ex_impl_old :: tls_impl where
  "ex_impl_old = \<lparr>hs_script = ex_script, seq_fields = False\<rparr>"

text \<open>A capture session on transport 0 and configuration 0, and its handshake.\<close>

definition ex_s1 :: Conn where "ex_s1 = fst (clientInitialize 0 0 ex_impl ex_w0)"

definition ex_w1 :: world where "ex_w1 = snd (clientInitialize 0 0 ex_impl ex_w0)"

definition ex_evs :: "io_event list" where "ex_evs = fst (snd (Handshake ex_s1 ex_w1))"

definition ex_s2 :: Conn where "ex_s2 = fst (snd (snd (Handshake ex_s1 ex_w1)))"

definition ex_w2 :: world where "ex_w2 = snd (snd (snd (Handshake ex_s1 ex_w1)))"

definition ex_state :: State where
  "ex_state = \<lparr>conn = [1, 2, 3], rand = [9, 8], inSeq = seq_a, outSeq = seq_b\<rparr>"

text \<open>
  Resuming on transport 1 with the same configuration: from a snapshot with other
  counters, and from the captured snapshot with the second engine.
\<close>

definition ex_saved :: State where
  "ex_saved = \<lparr>conn = [1, 2, 3], rand = [9, 8], inSeq = seq_c, outSeq = seq_c\<rparr>"

definition ex_s3 :: Conn where
  "ex_s3 = \<lparr>handshaked = True, overrideRand = None, overrideConn = None,
            connBuffer = 4, randBuffer = 5, tlsConn = 1\<rparr>"

definition ex_evs3 :: "io_event list" where
  "ex_evs3 = fst (snd (Server 1 0 (Some ex_saved) ex_impl ex_w2))"

definition ex_w3 :: world where
  "ex_w3 = snd (snd (Server 1 0 (Some ex_saved) ex_impl ex_w2))"

definition ex_evs4 :: "io_event list" where
  "ex_evs4 = fst (snd (Server 1 0 (Some ex_state) ex_impl2 ex_w2))"

text \<open>A capture session on transport 2, whose handshake fails.\<close>

definition ex_f1 :: Conn where "ex_f1 = fst (clientInitialize 2 0 ex_impl ex_w0)"

definition ex_fw1 :: world where "ex_fw1 = snd (clientInitialize 2 0 ex_impl ex_w0)"

definition ex_fevs :: "io_event list" where "ex_fevs = fst (snd (Handshake ex_f1 ex_fw1))"

definition ex_f2 :: Conn where "ex_f2 = fst (snd (snd (Handshake ex_f1 ex_fw1)))"

definition ex_fw2 :: world where "ex_fw2 = snd (snd (snd (Handshake ex_f1 ex_fw1)))"

text \<open>The capture session of the engine without counter fields.\<close>

definition ex_ow1 :: world where "ex_ow1 = snd (clientInitialize 0 0 ex_impl_old ex_w0)"

text \<open>
  Two capture sessions on one configuration: the second is built on transport 1 before
  the first has run its handshake, runs its handshake first, and the first one follows.
\<close>

definition ex_b1 :: Conn where "ex_b1 = fst (clientInitialize 1 0 ex_impl ex_w1)"

definition ex_bw1 :: world where "ex_bw1 = snd (clientInitialize 1 0 ex_impl ex_w1)"

definition ex_bw2 :: world where "ex_bw2 = snd (snd (snd (Handshake ex_b1 ex_bw1)))"

definition ex_aevs :: "io_event list" where "ex_aevs = fst (snd (Handshake ex_s1 ex_bw2))"

definition ex_a2 :: Conn where "ex_a2 = fst (snd (snd (Handshake ex_s1 ex_bw2)))"

definition ex_aw2 :: world where "ex_aw2 = snd (snd (snd (Handshake ex_s1 ex_bw2)))"

section \<open>Lemmas\<close>

lemmas model_defs =
  Server_def Client_def clientInitialize_def clientResume_def Handshake_def State_of_def
  getSeq_def setSeq_def FieldByName_def FieldToInterface_def SetFieldValue_def
  tls_Server_def tls_Handshake_def config_rand_def OverrideConn_Read_def OverrideConn_Write_def
  live_Read_def Buffer_Read_def Buffer_Write_def NewBuffer_def new_multi_def new_ov_def
  new_ovconn_def Let_def

lemmas ex_defs =
  ex_w0_def ex_engine_def ex_script_def ex_impl_def ex_s1_def ex_w1_def ex_evs_def ex_s2_def
  ex_w2_def ex_state_def seq_a_def seq_b_def zero_seq_def seq_c_def ex_saved_def ex_s3_def
  ex_evs3_def ex_w3_def ex_script2_def ex_impl2_def ex_evs4_def ex_f1_def ex_fw1_def ex_fevs_def
  ex_f2_def ex_fw2_def ex_impl_old_def ex_ow1_def ex_b1_def ex_bw1_def ex_bw2_def ex_aevs_def
  ex_a2_def ex_aw2_def

subsection \<open>What a read can change\<close>

lemma wiring_eq_refl: "wiring_eq w w"
  by (simp add: wiring_eq_def)

lemma wiring_eq_trans: "wiring_eq w w1 \<Longrightarrow> wiring_eq w1 w2 \<Longrightarrow> wiring_eq w w2"
  by (simp add: wiring_eq_def)

lemma touches_only_refl: "touches_only B M w w"
  by (simp add: touches_only_def wiring_eq_def)

lemma touches_only_trans:
  "touches_only B M w w1 \<Longrightarrow> touches_only B M w1 w2 \<Longrightarrow> touches_only B M w w2"
  by (simp add: touches_only_def wiring_eq_def)

lemma touches_only_mono:
  "touches_only B M w w' \<Longrightarrow> B \<subseteq> B' \<Longrightarrow> M \<subseteq> M' \<Longrightarrow> touches_only B' M' w w'"
  by (auto simp: touches_only_def)

lemma touches_only_multi:
  "m \<in> M \<Longrightarrow> touches_only B M w (w\<lparr>multi_pos := (multi_pos w)(m := k)\<rparr>)"
  by (auto simp: touches_only_def wiring_eq_def)

lemma touches_only_buf:
  "b \<in> B \<Longrightarrow> touches_only B M w (w\<lparr>bufs := (bufs w)(b := bs)\<rparr>)"
  by (auto simp: touches_only_def wiring_eq_def)

lemma touches_only_live: "touches_only B M w (w\<lparr>live_in := x\<rparr>)"
  by (simp add: touches_only_def wiring_eq_def)

lemma Read_touches:
  "Read r n w = (res, ls, w') \<Longrightarrow> touches_only (reader_bufs r) (reader_multis r) w w'"
proof (induction r arbitrary: w res ls w')
  case (RLive l)
  then show ?case
    by (auto simp: live_Read_def touches_only_live touches_only_refl split: list.splits)
next
  case (RBuf b)
  then show ?case
    by (auto simp: Buffer_Read_def touches_only_buf touches_only_refl split: if_splits)
next
  case (RTee r b)
  let ?B = "reader_bufs (RTee r b)" and ?M = "reader_multis (RTee r b)"
  obtain bs e ls1 w1 where r: "Read r n w = ((bs, e), ls1, w1)"
    by (metis prod.exhaust)
  from RTee.IH [OF r] have a: "touches_only ?B ?M w w1"
    by (rule touches_only_mono) auto
  have "touches_only ?B ?M w1 (Buffer_Write b bs w1)"
    by (simp add: Buffer_Write_def touches_only_buf)
  with a have "touches_only ?B ?M w (Buffer_Write b bs w1)"
    by (rule touches_only_trans)
  with a RTee.prems r show ?case
    by (auto split: if_splits)
next
  case (RMulti m r1 r2)
  let ?B = "reader_bufs (RMulti m r1 r2)" and ?M = "reader_multis (RMulti m r1 r2)"
  have step: "touches_only ?B ?M v (v\<lparr>multi_pos := (multi_pos v)(m := k)\<rparr>)" for v k
    by (rule touches_only_multi) simp
  show ?case
  proof (cases "multi_pos w m = 0")
    case True
    obtain bs1 e1 ls1 w1 where r1: "Read r1 n w = ((bs1, e1), ls1, w1)"
      by (metis prod.exhaust)
    from RMulti.IH(1) [OF r1] have a: "touches_only ?B ?M w w1"
      by (rule touches_only_mono) auto
    let ?w1 = "w1\<lparr>multi_pos := (multi_pos w1)(m := 1)\<rparr>"
    from a step have a': "touches_only ?B ?M w ?w1"
      by (rule touches_only_trans)
    obtain bs2 e2 ls2 w2 where r2: "Read r2 n ?w1 = ((bs2, e2), ls2, w2)"
      by (metis prod.exhaust)
    from RMulti.IH(2) [OF r2] have "touches_only ?B ?M ?w1 w2"
      by (rule touches_only_mono) auto
    with a' have b: "touches_only ?B ?M w w2"
      by (rule touches_only_trans)
    from b step have b': "touches_only ?B ?M w (w2\<lparr>multi_pos := (multi_pos w2)(m := 2)\<rparr>)"
      by (rule touches_only_trans)
    from RMulti.prems True r1 r2 a a' b b' show ?thesis
      by (auto simp: Let_def split: if_splits)
  next
    case False
    obtain bs2 e2 ls2 w2 where r2: "Read r2 n w = ((bs2, e2), ls2, w2)"
      by (metis prod.exhaust)
    from RMulti.IH(2) [OF r2] have b: "touches_only ?B ?M w w2"
      by (rule touches_only_mono) auto
    from b step have b': "touches_only ?B ?M w (w2\<lparr>multi_pos := (multi_pos w2)(m := 2)\<rparr>)"
      by (rule touches_only_trans)
    from RMulti.prems False r2 b b' touches_only_refl [of ?B ?M w] show ?thesis
      by (auto simp: Let_def split: if_splits)
  qed
next
  case (ROv i r base)
  let ?B = "reader_bufs (ROv i r base)" and ?M = "reader_multis (ROv i r base)"
  show ?case
  proof (cases "ov_attached w i")
    case True
    with ROv.prems have "Read r n w = (res, ls, w')" by simp
    from ROv.IH(1) [OF this] show ?thesis
      by (rule touches_only_mono) auto
  next
    case False
    with ROv.prems have "Read base n w = (res, ls, w')" by simp
    from ROv.IH(2) [OF this] show ?thesis
      by (rule touches_only_mono) auto
  qed
qed

lemma Read_wiring: "Read r n w = (res, ls, w') \<Longrightarrow> wiring_eq w w'"
  using Read_touches [of r n w res ls w'] by (simp add: touches_only_def)

lemma Read_sent: "Read r n w = (res, ls, w') \<Longrightarrow> sent w' = sent w"
  using Read_touches [of r n w res ls w'] by (simp add: touches_only_def)

lemma Read_bufs_other:
  "Read r n w = (res, ls, w') \<Longrightarrow> b \<notin> reader_bufs r \<Longrightarrow> bufs w' b = bufs w b"
  using Read_touches [of r n w res ls w'] by (simp add: touches_only_def)

lemma Read_multi_other:
  "Read r n w = (res, ls, w') \<Longrightarrow> m \<notin> reader_multis r \<Longrightarrow> multi_pos w' m = multi_pos w m"
  using Read_touches [of r n w res ls w'] by (simp add: touches_only_def)

lemma OverrideConn_Write_wiring:
  "OverrideConn_Write oc bs w = (t, w') \<Longrightarrow>
     wiring_eq w w' \<and> bufs w' = bufs w \<and> multi_pos w' = multi_pos w \<and> live_in w' = live_in w"
  by (auto simp: OverrideConn_Write_def wiring_eq_def Let_def split: option.splits writer.splits)

lemma OverrideConn_Read_wiring:
  "OverrideConn_Read oc n w = (res, ls, w') \<Longrightarrow> wiring_eq w w' \<and> sent w' = sent w"
  unfolding OverrideConn_Read_def
  by (cases "oc_OverrideReader (ovconns w oc)") (auto simp del: Read.simps dest: Read_wiring Read_sent)

lemma run_wiring: "run sc oc cfg w = (r, evs, w') \<Longrightarrow> wiring_eq w w'"
proof (induction sc arbitrary: w r evs w')
  case (Done i out)
  then show ?case by (simp add: wiring_eq_refl)
next
  case (Fail msg i out)
  then show ?case by (simp add: wiring_eq_refl)
next
  case (ReadConn n k)
  from ReadConn.prems obtain res ls w1 r1 evs1 where
    rd: "OverrideConn_Read oc n w = (res, ls, w1)" and
    rest: "run (k res) oc cfg w1 = (r1, evs1, w')"
    by (auto split: prod.splits)
  from rd have "wiring_eq w w1" by (simp add: OverrideConn_Read_wiring)
  moreover from rest have "wiring_eq w1 w'" by (rule ReadConn.IH [OF rangeI])
  ultimately show ?case by (rule wiring_eq_trans)
next
  case (ReadRand n k)
  from ReadRand.prems obtain res ls w1 r1 evs1 where
    rd: "Read (config_rand cfg w) n w = (res, ls, w1)" and
    rest: "run (k res) oc cfg w1 = (r1, evs1, w')"
    by (auto split: prod.splits)
  from rd have "wiring_eq w w1" by (rule Read_wiring)
  moreover from rest have "wiring_eq w1 w'" by (rule ReadRand.IH [OF rangeI])
  ultimately show ?case by (rule wiring_eq_trans)
next
  case (WriteConn bs k)
  from WriteConn.prems obtain t w1 r1 evs1 where
    wr: "OverrideConn_Write oc bs w = (t, w1)" and
    rest: "run k oc cfg w1 = (r1, evs1, w')"
    by (auto split: prod.splits)
  from wr have "wiring_eq w w1" by (simp add: OverrideConn_Write_wiring)
  moreover from rest have "wiring_eq w1 w'" by (rule WriteConn.IH)
  ultimately show ?case by (rule wiring_eq_trans)
qed

subsection \<open>The engine, the accessor, the facade\<close>

lemma tls_Handshake_fresh:
  assumes "\<not> e_done (engines w eid)" and "e_err (engines w eid) = None"
    and "tls_Handshake eid w = (r, evs, w')"
  shows "\<exists>i out w1. run (e_script (engines w eid)) (e_conn (engines w eid)) (e_cfg (engines w eid)) w
            = ((r, i, out), evs, w1) \<and>
          w' = w1\<lparr>engines := (engines w1)(eid :=
                 (engines w1 eid)\<lparr>e_in := i, e_out := out, e_done := (r = None), e_err := r\<rparr>)\<rparr>"
  using assms by (auto simp: tls_Handshake_def Let_def split: prod.splits)

lemma tls_Handshake_wiring:
  assumes "tls_Handshake eid w = (r, evs, w')"
  shows "next_buf w' = next_buf w \<and> next_multi w' = next_multi w \<and>
         ov_attached w' = ov_attached w \<and> next_ov w' = next_ov w \<and>
         ovconns w' = ovconns w \<and> next_ovconn w' = next_ovconn w \<and>
         cfg_Rand w' = cfg_Rand w \<and> next_engine w' = next_engine w \<and>
         (\<forall>e. e \<noteq> eid \<longrightarrow> engines w' e = engines w e) \<and>
         e_role (engines w' eid) = e_role (engines w eid) \<and>
         e_seq_fields (engines w' eid) = e_seq_fields (engines w eid) \<and>
         e_cfg (engines w' eid) = e_cfg (engines w eid)"
proof (cases "e_done (engines w eid) \<or> e_err (engines w eid) \<noteq> None")
  case True
  with assms have "w' = w"
    by (auto simp: tls_Handshake_def Let_def split: option.splits if_splits)
  then show ?thesis by simp
next
  case False
  with tls_Handshake_fresh [OF _ _ assms] obtain i out w1 where
    run: "run (e_script (engines w eid)) (e_conn (engines w eid)) (e_cfg (engines w eid)) w
            = ((r, i, out), evs, w1)" and
    w': "w' = w1\<lparr>engines := (engines w1)(eid :=
                 (engines w1 eid)\<lparr>e_in := i, e_out := out, e_done := (r = None), e_err := r\<rparr>)\<rparr>"
    by auto
  from run_wiring [OF run] w' show ?thesis
    by (simp add: wiring_eq_def)
qed

lemma getSeq_eq:
  "getSeq eid w =
     (if e_seq_fields (engines w eid) then Inr (e_in (engines w eid), e_out (engines w eid))
      else Inl (Panic ''reflect: call on zero Value''))"
  by (simp add: getSeq_def FieldByName_def FieldToInterface_def)

lemma setSeq_eq:
  "setSeq eid i out w =
     (if e_seq_fields (engines w eid)
      then Inr (w\<lparr>engines := (engines w)(eid := (engines w eid)\<lparr>e_in := i, e_out := out\<rparr>)\<rparr>)
      else Inl (Panic ''reflect: call on zero Value''))"
  by (simp add: setSeq_def FieldByName_def SetFieldValue_def)

lemma setSeq_wiring:
  assumes "setSeq eid i out w = Inr w'"
  shows "cfg_Rand w' = cfg_Rand w \<and> next_engine w' = next_engine w \<and> next_buf w' = next_buf w \<and>
         sent w' = sent w \<and> bufs w' = bufs w \<and>
         (\<forall>e. e \<noteq> eid \<longrightarrow> engines w' e = engines w e) \<and>
         e_role (engines w' eid) = e_role (engines w eid) \<and>
         e_cfg (engines w' eid) = e_cfg (engines w eid)"
  using assms by (auto simp: setSeq_eq split: if_splits)

lemma State_of_eq:
  "State_of s w =
     (if e_seq_fields (engines w (tlsConn s))
      then Inr \<lparr>conn = bufs w (connBuffer s), rand = bufs w (randBuffer s),
                inSeq = e_in (engines w (tlsConn s)), outSeq = e_out (engines w (tlsConn s))\<rparr>
      else Inl (Panic ''reflect: call on zero Value''))"
  by (simp add: State_of_def getSeq_eq)

lemma Handshake_success:
  assumes "\<not> handshaked s" and "Handshake s w = (None, evs, s', w')"
  shows "\<exists>ov oc w1. tls_Handshake (tlsConn s) w = (None, evs, w1) \<and>
           overrideRand s = Some ov \<and> overrideConn s = Some oc \<and>
           s' = s\<lparr>handshaked := True\<rparr> \<and>
           w' = w1\<lparr>ov_attached := (ov_attached w1)(ov := False),
                   ovconns := (ovconns w1)(oc := (ovconns w1 oc)\<lparr>oc_OverrideReader := None\<rparr>)\<rparr>"
  using assms
  by (auto simp: Handshake_def Let_def split: prod.splits option.splits)

lemma Handshake_failure:
  assumes "\<not> handshaked s" and "Handshake s w = (Some (Err msg), evs, s', w')"
  shows "\<exists>w1. tls_Handshake (tlsConn s) w = (Some msg, evs, w1) \<and>
           s' = s\<lparr>connBuffer := next_buf w1, randBuffer := Suc (next_buf w1)\<rparr> \<and>
           w' = w1\<lparr>bufs := (bufs w1)(next_buf w1 := [], Suc (next_buf w1) := []),
                   next_buf := Suc (Suc (next_buf w1))\<rparr>"
  using assms
  by (auto simp: Handshake_def NewBuffer_def Let_def split: prod.splits option.splits)

lemma Handshake_not_handshaked_failure:
  assumes "\<not> handshaked s" and "overrideRand s \<noteq> None" and "overrideConn s \<noteq> None"
    and "Handshake s w = (Some f, evs, s', w')"
  shows "\<exists>msg. f = Err msg"
  using assms
  by (auto simp: Handshake_def NewBuffer_def Let_def split: prod.splits option.splits)

subsection \<open>A capturing handshake\<close>

lemma clientInitialize_result:
  "clientInitialize c cfg impl w =
     (\<lparr>handshaked = False, overrideRand = Some (next_ov w), overrideConn = Some (next_ovconn w),
       connBuffer = next_buf w, randBuffer = Suc (next_buf w), tlsConn = next_engine w\<rparr>,
      w\<lparr>bufs := (bufs w)(next_buf w := [], Suc (next_buf w) := []),
        next_buf := Suc (Suc (next_buf w)),
        ov_attached := (ov_attached w)(next_ov w := True),
        next_ov := Suc (next_ov w),
        ovconns := (ovconns w)(next_ovconn w :=
           \<lparr>oc_Conn = c, oc_OverrideReader = Some (RTee (RLive (Transport c)) (next_buf w)),
            oc_OverrideWriter = None\<rparr>),
        next_ovconn := Suc (next_ovconn w),
        cfg_Rand := (cfg_Rand w)(cfg :=
           Some (ROv (next_ov w) (RTee (config_rand cfg w) (Suc (next_buf w))) (config_rand cfg w))),
        engines := (engines w)(next_engine w :=
           \<lparr>e_conn = next_ovconn w, e_cfg = cfg, e_role = ServerSide, e_script = hs_script impl,
            e_seq_fields = seq_fields impl, e_in = zero_seq, e_out = zero_seq,
            e_done = False, e_err = None\<rparr>),
        next_engine := Suc (next_engine w)\<rparr>)"
  by (simp add: clientInitialize_def NewBuffer_def new_ov_def new_ovconn_def tls_Server_def
        config_rand_def Let_def)

lemma capture_wired_cong:
  "capture_wired w oc cfg c cb rb \<Longrightarrow> wiring_eq w w' \<Longrightarrow> capture_wired w' oc cfg c cb rb"
  by (simp add: capture_wired_def wiring_eq_def)

lemma clientInitialize_wired:
  assumes fresh: "\<forall>b\<in>reader_bufs (config_rand cfg w). b < next_buf w"
    and init: "clientInitialize c cfg impl w = (s, w1)"
  shows "capture_wired w1 (next_ovconn w) cfg c (connBuffer s) (randBuffer s)"
proof -
  from fresh have "next_buf w \<notin> reader_bufs (config_rand cfg w)"
    "Suc (next_buf w) \<notin> reader_bufs (config_rand cfg w)"
    by auto
  with init show ?thesis
    unfolding clientInitialize_result capture_wired_def by auto
qed

lemma capture_conn_read:
  assumes "capture_wired w oc cfg c cb rb" and "OverrideConn_Read oc n w = (res, ls, w1)"
  shows "bufs w1 cb = bufs w cb @ fst res \<and> bufs w1 rb = bufs w rb \<and> ls = [(Transport c, fst res)]"
  using assms
  by (auto simp: capture_wired_def OverrideConn_Read_def live_Read_def Buffer_Write_def
           split: list.splits if_splits)

lemma capture_rand_read:
  assumes "capture_wired w oc cfg c cb rb" and "Read (config_rand cfg w) n w = (res, ls, w1)"
  shows "bufs w1 rb = bufs w rb @ fst res \<and> bufs w1 cb = bufs w cb"
proof -
  from assms(1) obtain i rnd where
    cfg: "cfg_Rand w cfg = Some (ROv i (RTee rnd rb) rnd)" and att: "ov_attached w i" and
    fresh: "cb \<notin> reader_bufs rnd" "rb \<notin> reader_bufs rnd" and ne: "cb \<noteq> rb"
    by (auto simp: capture_wired_def)
  obtain bs e ls0 w0 where r: "Read rnd n w = ((bs, e), ls0, w0)"
    by (metis prod.exhaust)
  from r fresh have "bufs w0 cb = bufs w cb" "bufs w0 rb = bufs w rb"
    by (simp_all add: Read_bufs_other)
  with assms(2) cfg att r ne show ?thesis
    by (auto simp: config_rand_def Buffer_Write_def split: if_splits)
qed

lemma capture_write:
  assumes "OverrideConn_Write oc bs w = (t, w1)"
  shows "bufs w1 = bufs w"
  using assms by (simp add: OverrideConn_Write_wiring)

lemma capture_run:
  "capture_wired w oc cfg c cb rb \<Longrightarrow> run sc oc cfg w = (r, evs, w') \<Longrightarrow>
     bufs w' cb = bufs w cb @ conn_bytes evs \<and> bufs w' rb = bufs w rb @ rand_bytes evs \<and>
     transport_bytes evs = conn_bytes evs \<and> transport_only c evs"
proof (induction sc arbitrary: w r evs w')
  case (Done i out)
  then show ?case by auto
next
  case (Fail msg i out)
  then show ?case by auto
next
  case (ReadConn n k)
  from ReadConn.prems(2) obtain res ls w1 evs1 where
    rd: "OverrideConn_Read oc n w = (res, ls, w1)" and
    rest: "run (k res) oc cfg w1 = (r, evs1, w')" and
    evs: "evs = ConnRead (fst res) ls # evs1"
    by (auto split: prod.splits)
  from rd have "wiring_eq w w1" by (simp add: OverrideConn_Read_wiring)
  with ReadConn.prems(1) have wired: "capture_wired w1 oc cfg c cb rb"
    by (rule capture_wired_cong)
  from ReadConn.IH [OF rangeI wired rest] capture_conn_read [OF ReadConn.prems(1) rd] evs
  show ?case by simp
next
  case (ReadRand n k)
  from ReadRand.prems(2) obtain res ls w1 evs1 where
    rd: "Read (config_rand cfg w) n w = (res, ls, w1)" and
    rest: "run (k res) oc cfg w1 = (r, evs1, w')" and
    evs: "evs = RandRead (fst res) ls # evs1"
    by (auto split: prod.splits)
  from rd have "wiring_eq w w1" by (rule Read_wiring)
  with ReadRand.prems(1) have wired: "capture_wired w1 oc cfg c cb rb"
    by (rule capture_wired_cong)
  from ReadRand.IH [OF rangeI wired rest] capture_rand_read [OF ReadRand.prems(1) rd] evs
  show ?case by simp
next
  case (WriteConn bs k)
  from WriteConn.prems(2) obtain t w1 evs1 where
    wr: "OverrideConn_Write oc bs w = (t, w1)" and
    rest: "run k oc cfg w1 = (r, evs1, w')" and
    evs: "evs = ConnWrite bs t # evs1"
    by (auto split: prod.splits)
  from wr have "wiring_eq w w1" by (simp add: OverrideConn_Write_wiring)
  with WriteConn.prems(1) have wired: "capture_wired w1 oc cfg c cb rb"
    by (rule capture_wired_cong)
  from WriteConn.IH [OF wired rest] capture_write [OF wr] evs
  show ?case by simp
qed

text \<open>
  The handshake of a capture session that is still wired as built: each buffer ends with
  exactly what the handshake received, after what the buffer held before.
\<close>

lemma Handshake_capture:
  assumes wired: "capture_wired w oc cfg c (connBuffer s) (randBuffer s)"
    and nh: "\<not> handshaked s"
    and eng: "\<not> e_done (engines w (tlsConn s))" "e_err (engines w (tlsConn s)) = None"
      "e_conn (engines w (tlsConn s)) = oc" "e_cfg (engines w (tlsConn s)) = cfg"
    and hs: "Handshake s w = (None, evs, s', w')"
  shows "bufs w' (connBuffer s') = bufs w (connBuffer s) @ conn_bytes evs \<and>
         bufs w' (randBuffer s') = bufs w (randBuffer s) @ rand_bytes evs \<and>
         transport_bytes evs = conn_bytes evs \<and> transport_only c evs"
proof -
  from Handshake_success [OF nh hs] obtain ov k v where
    th: "tls_Handshake (tlsConn s) w = (None, evs, v)" and
    s': "s' = s\<lparr>handshaked := True\<rparr>" and
    w': "bufs w' = bufs v"
    by auto
  from tls_Handshake_fresh [OF eng(1,2) th] eng(3,4) obtain i out v1 where
    run: "run (e_script (engines w (tlsConn s))) oc cfg w = ((None, i, out), evs, v1)"
    and v: "bufs v = bufs v1"
    by auto
  from capture_run [OF wired run] v w' s' show ?thesis
    by simp
qed

subsection \<open>A replaying handshake\<close>

lemma run_discard:
  "oc_OverrideWriter (ovconns w oc) = Some Discard \<Longrightarrow> run sc oc cfg w = (r, evs, w') \<Longrightarrow>
     sent w' = sent w \<and> discarded evs"
proof (induction sc arbitrary: w r evs w')
  case (Done i out)
  then show ?case by auto
next
  case (Fail msg i out)
  then show ?case by auto
next
  case (ReadConn n k)
  from ReadConn.prems(2) obtain res ls w1 evs1 where
    rd: "OverrideConn_Read oc n w = (res, ls, w1)" and
    rest: "run (k res) oc cfg w1 = (r, evs1, w')" and
    evs: "evs = ConnRead (fst res) ls # evs1"
    by (auto split: prod.splits)
  from rd have eq: "wiring_eq w w1" "sent w1 = sent w" by (simp_all add: OverrideConn_Read_wiring)
  with ReadConn.prems(1) have "oc_OverrideWriter (ovconns w1 oc) = Some Discard"
    by (simp add: wiring_eq_def)
  from ReadConn.IH [OF rangeI this rest] eq evs show ?case by simp
next
  case (ReadRand n k)
  from ReadRand.prems(2) obtain res ls w1 evs1 where
    rd: "Read (config_rand cfg w) n w = (res, ls, w1)" and
    rest: "run (k res) oc cfg w1 = (r, evs1, w')" and
    evs: "evs = RandRead (fst res) ls # evs1"
    by (auto split: prod.splits)
  from rd have eq: "wiring_eq w w1" "sent w1 = sent w" by (rule Read_wiring, rule Read_sent)
  with ReadRand.prems(1) have "oc_OverrideWriter (ovconns w1 oc) = Some Discard"
    by (simp add: wiring_eq_def)
  from ReadRand.IH [OF rangeI this rest] eq evs show ?case by simp
next
  case (WriteConn bs k)
  from WriteConn.prems(2) obtain t w1 evs1 where
    wr: "OverrideConn_Write oc bs w = (t, w1)" and
    rest: "run k oc cfg w1 = (r, evs1, w')" and
    evs: "evs = ConnWrite bs t # evs1"
    by (auto split: prod.splits)
  from wr WriteConn.prems(1) have eq: "t = None" "w1 = w"
    by (simp_all add: OverrideConn_Write_def)
  from WriteConn.IH [OF _ rest] WriteConn.prems(1) eq evs show ?case by simp
qed

lemma replay_wired_cong:
  "replay_wired w oc cfg c cb cm rb rm \<Longrightarrow> wiring_eq w w' \<Longrightarrow> replay_wired w' oc cfg c cb cm rb rm"
  by (simp add: replay_wired_def wiring_eq_def)

lemma replay_conn_read:
  assumes wired: "replay_wired w oc cfg c cb cm rb rm"
    and pend: "replay_pending w cm cb"
    and rd: "OverrideConn_Read oc n w = (res, ls, w1)"
  shows "(if bufs w cb = [] then fst res = concat (map snd ls) \<and> bufs w1 cb = []
          else ls = [] \<and> prefix (fst res) (bufs w cb) \<and>
               bufs w1 cb = drop (length (fst res)) (bufs w cb)) \<and>
         replay_pending w1 cm cb \<and> bufs w1 rb = bufs w rb \<and> multi_pos w1 rm = multi_pos w rm"
proof -
  from wired have r: "oc_OverrideReader (ovconns w oc) = Some (RMulti cm (RBuf cb) (RLive (Transport c)))"
    and ne: "cb \<noteq> rb" "cm \<noteq> rm"
    by (simp_all add: replay_wired_def)
  from rd r have rd': "Read (RMulti cm (RBuf cb) (RLive (Transport c))) n w = (res, ls, w1)"
    by (simp add: OverrideConn_Read_def)
  show ?thesis
  proof (cases "bufs w cb = []")
    case True
    with rd' ne show ?thesis
      by (auto simp: Buffer_Read_def live_Read_def replay_pending_def Let_def
               split: if_splits list.splits)
  next
    case False
    with pend have "multi_pos w cm = 0" by (simp add: replay_pending_def)
    with False rd' ne show ?thesis
      by (auto simp: Buffer_Read_def replay_pending_def take_is_prefix min_def drop_all
               split: if_splits)
  qed
qed

lemma replay_rand_read:
  assumes wired: "replay_wired w oc cfg c cb cm rb rm"
    and pend: "replay_pending w rm rb"
    and rd: "Read (config_rand cfg w) n w = (res, ls, w1)"
  shows "(if bufs w rb = [] then bufs w1 rb = []
          else ls = [] \<and> prefix (fst res) (bufs w rb) \<and>
               bufs w1 rb = drop (length (fst res)) (bufs w rb)) \<and>
         replay_pending w1 rm rb \<and> bufs w1 cb = bufs w cb \<and> multi_pos w1 cm = multi_pos w cm"
proof -
  from wired obtain i rnd where
    cfg: "cfg_Rand w cfg = Some (ROv i (RMulti rm (RBuf rb) rnd) rnd)" and att: "ov_attached w i" and
    fresh: "cb \<notin> reader_bufs rnd" "rb \<notin> reader_bufs rnd"
           "cm \<notin> reader_multis rnd" "rm \<notin> reader_multis rnd" and
    ne: "cb \<noteq> rb" "cm \<noteq> rm"
    by (auto simp: replay_wired_def)
  from rd cfg att have rd': "Read (RMulti rm (RBuf rb) rnd) n w = (res, ls, w1)"
    by (simp add: config_rand_def)
  have other: "bufs v' cb = bufs v cb \<and> bufs v' rb = bufs v rb \<and>
               multi_pos v' cm = multi_pos v cm \<and> multi_pos v' rm = multi_pos v rm"
    if "Read rnd n v = (x, y, v')" for v x y v'
    using that fresh by (simp add: Read_bufs_other Read_multi_other)
  show ?thesis
  proof (cases "bufs w rb = []")
    case True
    show ?thesis
    proof (cases "multi_pos w rm = 0")
      case pos0: True
      let ?w1 = "w\<lparr>multi_pos := (multi_pos w)(rm := 1)\<rparr>"
      obtain x y v' where r2: "Read rnd n ?w1 = (x, y, v')"
        by (metis prod.exhaust)
      from other [OF r2] rd' True pos0 r2 ne show ?thesis
        by (auto simp: Buffer_Read_def replay_pending_def Let_def split: if_splits prod.splits)
    next
      case False
      obtain x y v' where r2: "Read rnd n w = (x, y, v')"
        by (metis prod.exhaust)
      from other [OF r2] rd' True False r2 ne show ?thesis
        by (auto simp: replay_pending_def split: if_splits prod.splits)
    qed
  next
    case False
    with pend have "multi_pos w rm = 0" by (simp add: replay_pending_def)
    with False rd' ne show ?thesis
      by (auto simp: Buffer_Read_def replay_pending_def take_is_prefix min_def drop_all
               split: if_splits)
  qed
qed

lemma replay_run:
  "replay_wired w oc cfg c cb cm rb rm \<Longrightarrow> replay_pending w cm cb \<Longrightarrow> replay_pending w rm rb \<Longrightarrow>
   run sc oc cfg w = (r, evs, w') \<Longrightarrow>
     conn_replay_first (bufs w cb) evs \<and> rand_replay_first (bufs w rb) evs"
proof (induction sc arbitrary: w r evs w')
  case (Done i out)
  then show ?case by auto
next
  case (Fail msg i out)
  then show ?case by auto
next
  case (ReadConn n k)
  from ReadConn.prems(4) obtain res ls w1 evs1 where
    rd: "OverrideConn_Read oc n w = (res, ls, w1)" and
    rest: "run (k res) oc cfg w1 = (r, evs1, w')" and
    evs: "evs = ConnRead (fst res) ls # evs1"
    by (auto split: prod.splits)
  from rd have "wiring_eq w w1" by (simp add: OverrideConn_Read_wiring)
  with ReadConn.prems(1) have wired: "replay_wired w1 oc cfg c cb cm rb rm"
    by (rule replay_wired_cong)
  note step = replay_conn_read [OF ReadConn.prems(1,2) rd]
  from step ReadConn.prems(3) have pend: "replay_pending w1 cm cb" "replay_pending w1 rm rb"
    by (simp_all add: replay_pending_def)
  from ReadConn.IH [OF rangeI wired pend rest] step evs
  show ?case by (simp split: if_splits)
next
  case (ReadRand n k)
  from ReadRand.prems(4) obtain res ls w1 evs1 where
    rd: "Read (config_rand cfg w) n w = (res, ls, w1)" and
    rest: "run (k res) oc cfg w1 = (r, evs1, w')" and
    evs: "evs = RandRead (fst res) ls # evs1"
    by (auto split: prod.splits)
  from rd have "wiring_eq w w1" by (rule Read_wiring)
  with ReadRand.prems(1) have wired: "replay_wired w1 oc cfg c cb cm rb rm"
    by (rule replay_wired_cong)
  note step = replay_rand_read [OF ReadRand.prems(1,3) rd]
  from step ReadRand.prems(2) have pend: "replay_pending w1 cm cb" "replay_pending w1 rm rb"
    by (simp_all add: replay_pending_def)
  from ReadRand.IH [OF rangeI wired pend rest] step evs
  show ?case by (simp split: if_splits)
next
  case (WriteConn bs k)
  from WriteConn.prems(4) obtain t w1 evs1 where
    wr: "OverrideConn_Write oc bs w = (t, w1)" and
    rest: "run k oc cfg w1 = (r, evs1, w')" and
    evs: "evs = ConnWrite bs t # evs1"
    by (auto split: prod.splits)
  from wr have eq: "wiring_eq w w1" "bufs w1 = bufs w" "multi_pos w1 = multi_pos w"
    by (simp_all add: OverrideConn_Write_wiring)
  with WriteConn.prems(1) have wired: "replay_wired w1 oc cfg c cb cm rb rm"
    by (blast intro: replay_wired_cong)
  from eq WriteConn.prems(2,3) have pend: "replay_pending w1 cm cb" "replay_pending w1 rm rb"
    by (simp_all add: replay_pending_def)
  from WriteConn.IH [OF wired pend rest] eq evs
  show ?case by simp
qed

lemma clientResume_unfold:
  "clientResume c cfg st impl w =
     (case tls_Handshake (next_engine w) (resume_start c cfg st impl w) of
        (Some msg, evs, w9) \<Rightarrow> (Inl (Err (''handshake er: '' @ msg)), evs, w9)
      | (None, evs, w9) \<Rightarrow>
          (let w11 = w9\<lparr>ov_attached := (ov_attached w9)(next_ov w := False),
                        ovconns := (ovconns w9)(next_ovconn w :=
                           (ovconns w9 (next_ovconn w))\<lparr>oc_OverrideReader := None,
                                                         oc_OverrideWriter := None\<rparr>)\<rparr>
           in case setSeq (next_engine w) (inSeq st) (outSeq st) w11 of
                Inl p \<Rightarrow> (Inl p, evs, w11)
              | Inr w12 \<Rightarrow>
                  (Inr \<lparr>handshaked = True, overrideRand = None, overrideConn = None,
                        connBuffer = next_buf w12, randBuffer = Suc (next_buf w12),
                        tlsConn = next_engine w\<rparr>,
                   evs,
                   w12\<lparr>bufs := (bufs w12)(next_buf w12 := conn st, Suc (next_buf w12) := rand st),
                       next_buf := Suc (Suc (next_buf w12))\<rparr>)))"
proof (cases "tls_Handshake (next_engine w) (resume_start c cfg st impl w)")
  case (fields r evs w9)
  note defs = clientResume_def resume_start_def NewBuffer_def new_multi_def new_ov_def
    new_ovconn_def tls_Server_def Let_def
  show ?thesis
  proof (cases r)
    case None
    with fields show ?thesis
      by (cases "setSeq (next_engine w) (inSeq st) (outSeq st)
                   (w9\<lparr>ov_attached := (ov_attached w9)(next_ov w := False),
                        ovconns := (ovconns w9)(next_ovconn w :=
                           (ovconns w9 (next_ovconn w))\<lparr>oc_OverrideReader := None,
                                                         oc_OverrideWriter := None\<rparr>)\<rparr>)")
         (simp_all add: defs)
  next
    case (Some msg)
    with fields show ?thesis
      by (simp add: defs)
  qed
qed

lemma resume_start_engine:
  "\<not> e_done (engines (resume_start c cfg st impl w) (next_engine w))"
  "e_err (engines (resume_start c cfg st impl w) (next_engine w)) = None"
  "e_conn (engines (resume_start c cfg st impl w) (next_engine w)) = next_ovconn w"
  "e_cfg (engines (resume_start c cfg st impl w) (next_engine w)) = cfg"
  "e_script (engines (resume_start c cfg st impl w) (next_engine w)) = hs_script impl"
  by (simp_all add: resume_start_def)

lemma resume_handshake_events:
  assumes "clientResume c cfg st impl w = (res, evs, w')"
  shows "\<exists>r i out v. run (hs_script impl) (next_ovconn w) cfg (resume_start c cfg st impl w)
            = ((r, i, out), evs, v)"
proof -
  obtain r evs1 w9 where th: "tls_Handshake (next_engine w) (resume_start c cfg st impl w) = (r, evs1, w9)"
    by (metis prod.exhaust)
  with assms have "evs = evs1"
    by (auto simp: clientResume_unfold Let_def split: option.splits sum.splits)
  with tls_Handshake_fresh [OF resume_start_engine(1,2) th] show ?thesis
    by (auto simp: resume_start_engine)
qed

lemma clientResume_frame:
  assumes "clientResume c cfg st impl w = (res, evs, w')"
  shows "cfg_Rand w' = (cfg_Rand w)(cfg :=
            Some (ROv (next_ov w) (RMulti (next_multi w) (RBuf (next_buf w)) (config_rand cfg w))
                    (config_rand cfg w))) \<and>
         next_engine w' = Suc (next_engine w) \<and>
         (\<forall>e. e \<noteq> next_engine w \<longrightarrow> engines w' e = engines w e) \<and>
         e_role (engines w' (next_engine w)) = ServerSide \<and>
         e_cfg (engines w' (next_engine w)) = cfg"
proof -
  let ?w8 = "resume_start c cfg st impl w" and ?e = "next_engine w"
  obtain r evs1 w9 where th: "tls_Handshake ?e ?w8 = (r, evs1, w9)"
    by (metis prod.exhaust)
  let ?w11 = "w9\<lparr>ov_attached := (ov_attached w9)(next_ov w := False),
                        ovconns := (ovconns w9)(next_ovconn w :=
                           (ovconns w9 (next_ovconn w))\<lparr>oc_OverrideReader := None,
                                                         oc_OverrideWriter := None\<rparr>)\<rparr>"
  from tls_Handshake_wiring [OF th]
  have a: "cfg_Rand w9 = cfg_Rand ?w8" "next_engine w9 = next_engine ?w8"
    "\<forall>e. e \<noteq> ?e \<longrightarrow> engines w9 e = engines ?w8 e"
    "e_role (engines w9 ?e) = e_role (engines ?w8 ?e)"
    "e_cfg (engines w9 ?e) = e_cfg (engines ?w8 ?e)"
    by simp_all
  have b: "cfg_Rand ?w8 = (cfg_Rand w)(cfg :=
            Some (ROv (next_ov w) (RMulti (next_multi w) (RBuf (next_buf w)) (config_rand cfg w))
                    (config_rand cfg w)))"
    "next_engine ?w8 = Suc ?e" "\<forall>e. e \<noteq> ?e \<longrightarrow> engines ?w8 e = engines w e"
    "e_role (engines ?w8 ?e) = ServerSide" "e_cfg (engines ?w8 ?e) = cfg"
    by (simp_all add: resume_start_def)
  have c: "cfg_Rand ?w11 = cfg_Rand w9" "next_engine ?w11 = next_engine w9"
    "engines ?w11 = engines w9"
    by simp_all
  show ?thesis
  proof (cases "r = None \<and> (\<exists>w12. setSeq ?e (inSeq st) (outSeq st) ?w11 = Inr w12)")
    case True
    then obtain w12 where r: "r = None" and ss: "setSeq ?e (inSeq st) (outSeq st) ?w11 = Inr w12"
      by auto
    from assms th r ss have w': "w' = w12\<lparr>bufs := (bufs w12)(next_buf w12 := conn st, Suc (next_buf w12) := rand st),
                       next_buf := Suc (Suc (next_buf w12))\<rparr>"
      by (simp add: clientResume_unfold)
    from setSeq_wiring [OF ss] a b c w' show ?thesis
      by simp
  next
    case False
    with assms th have "w' = w9 \<or> w' = ?w11"
      by (auto simp: clientResume_unfold Let_def split: option.splits sum.splits)
    with a b c show ?thesis
      by auto
  qed
qed

subsection \<open>Allocation\<close>

text \<open>
  \<open>world_ok\<close> holds in the example store and is kept by the constructors and by
  \<^verbatim>\<open>Handshake\<close>; it gives the hypotheses on new objects that C1 and C2 need.
\<close>

lemma world_ok_cong:
  assumes "world_ok w" and "cfg_Rand w' = cfg_Rand w"
    and "next_buf w \<le> next_buf w'" and "next_multi w \<le> next_multi w'"
  shows "world_ok w'"
  using assms by (fastforce simp: world_ok_def config_rand_def)

lemma world_ok_wrap:
  assumes ok: "world_ok w"
    and cfg: "cfg_Rand w' = (cfg_Rand w)(cfg := Some r)"
    and b: "\<forall>b\<in>reader_bufs r. b < next_buf w'" and m: "\<forall>m\<in>reader_multis r. m < next_multi w'"
    and le: "next_buf w \<le> next_buf w'" "next_multi w \<le> next_multi w'"
  shows "world_ok w'"
  unfolding world_ok_def
proof (intro allI)
  fix k
  show "(\<forall>b\<in>reader_bufs (config_rand k w'). b < next_buf w') \<and>
        (\<forall>m\<in>reader_multis (config_rand k w'). m < next_multi w')"
  proof (cases "k = cfg")
    case True
    with cfg b m show ?thesis by (simp add: config_rand_def)
  next
    case False
    with cfg have "config_rand k w' = config_rand k w" by (simp add: config_rand_def)
    with ok le show ?thesis by (fastforce simp: world_ok_def)
  qed
qed

lemma clientResume_counters:
  assumes "clientResume c cfg st impl w = (res, evs, w')"
  shows "next_multi w' = Suc (Suc (next_multi w)) \<and> Suc (Suc (next_buf w)) \<le> next_buf w'"
proof -
  let ?w8 = "resume_start c cfg st impl w" and ?e = "next_engine w"
  obtain r evs1 w9 where th: "tls_Handshake ?e ?w8 = (r, evs1, w9)"
    by (metis prod.exhaust)
  from tls_Handshake_wiring [OF th]
  have a: "next_multi w9 = Suc (Suc (next_multi w))" "next_buf w9 = Suc (Suc (next_buf w))"
    by (simp_all add: resume_start_def)
  from assms th a show ?thesis
    by (auto simp: clientResume_unfold setSeq_eq Let_def split: option.splits sum.splits if_splits)
qed

lemma world_ok_Server:
  assumes ok: "world_ok w" and build: "Server c cfg st impl w = (res, evs, w')"
  shows "world_ok w'"
proof -
  let ?rnd = "config_rand cfg w"
  from ok have fresh: "\<forall>b\<in>reader_bufs ?rnd. b < next_buf w"
    "\<forall>m\<in>reader_multis ?rnd. m < next_multi w"
    by (simp_all add: world_ok_def)
  show ?thesis
  proof (cases st)
    case None
    let ?r = "ROv (next_ov w) (RTee ?rnd (Suc (next_buf w))) ?rnd"
    from None build have w': "w' = snd (clientInitialize c cfg impl w)"
      by (auto simp: Server_def split: prod.splits)
    have eq: "cfg_Rand w' = (cfg_Rand w)(cfg := Some ?r)"
      and nb: "next_buf w' = Suc (Suc (next_buf w))" and nm: "next_multi w' = next_multi w"
      unfolding w' clientInitialize_result by simp_all
    from fresh nb nm show ?thesis
      by (intro world_ok_wrap [OF ok eq]) (auto simp: less_Suc_eq)
  next
    case (Some x)
    let ?r = "ROv (next_ov w) (RMulti (next_multi w) (RBuf (next_buf w)) ?rnd) ?rnd"
    from Some build have r: "clientResume c cfg x impl w = (res, evs, w')"
      by (simp add: Server_def)
    from clientResume_frame [OF r] have eq: "cfg_Rand w' = (cfg_Rand w)(cfg := Some ?r)"
      by simp
    from clientResume_counters [OF r]
    have nm: "next_multi w' = Suc (Suc (next_multi w))" and nb: "Suc (Suc (next_buf w)) \<le> next_buf w'"
      by simp_all
    from fresh nb nm show ?thesis
      by (intro world_ok_wrap [OF ok eq]) (auto simp: less_Suc_eq)
  qed
qed

lemma world_ok_Handshake:
  assumes ok: "world_ok w" and hs: "Handshake s w = (r, evs, s', w')"
  shows "world_ok w'"
proof (cases "handshaked s")
  case True
  with hs ok show ?thesis by (simp add: Handshake_def)
next
  case False
  obtain r1 evs1 w1 where th: "tls_Handshake (tlsConn s) w = (r1, evs1, w1)"
    by (metis prod.exhaust)
  from tls_Handshake_wiring [OF th]
  have a: "cfg_Rand w1 = cfg_Rand w" "next_buf w1 = next_buf w" "next_multi w1 = next_multi w"
    by simp_all
  from hs False th have "cfg_Rand w' = cfg_Rand w1 \<and> next_buf w1 \<le> next_buf w' \<and>
      next_multi w' = next_multi w1"
    by (auto simp: Handshake_def NewBuffer_def Let_def split: option.splits)
  with a show ?thesis
    by (intro world_ok_cong [OF ok]) simp_all
qed

lemma world_ok_example: "world_ok ex_w0"
  by (simp add: world_ok_def config_rand_def ex_w0_def)

lemma world_ok_fresh:
  "world_ok w \<Longrightarrow>
     (\<forall>b\<in>reader_bufs (config_rand cfg w). b < next_buf w) \<and>
     (\<forall>m\<in>reader_multis (config_rand cfg w). m < next_multi w)"
  by (simp add: world_ok_def)

subsection \<open>The example runs\<close>

lemma ex_resume:
  "Server 1 0 (Some ex_saved) ex_impl ex_w2 = (Inr ex_s3, ex_evs3, ex_w3)"
proof -
  have "fst (Server 1 0 (Some ex_saved) ex_impl ex_w2) = Inr ex_s3"
    by (simp add: model_defs ex_defs)
  then show ?thesis
    by (simp add: ex_evs3_def ex_w3_def prod_eq_iff)
qed

lemma ex_failed:
  "Handshake ex_f1 ex_fw1 = (Some (Err ''bad record''), ex_fevs, ex_f2, ex_fw2)"
proof -
  have "fst (Handshake ex_f1 ex_fw1) = Some (Err ''bad record'')"
    by (simp add: model_defs ex_defs)
  then show ?thesis
    by (simp add: ex_fevs_def ex_f2_def ex_fw2_def prod_eq_iff)
qed

section \<open>The claims\<close>

subsection \<open>C1: what a capture session records\<close>

text \<open>
  Claim C1, as stated, fails: two capture sessions built on one configuration object,
  transports 0 and 1. The constructor of the second wraps the wrapper of the first
  (\<^verbatim>\<open>cfg.Rand\<close> holds it), so the two random bytes \<open>9, 8\<close> that the handshake of the second
  draws pass through the tee of the first and land in its buffer. The handshake of the
  first then succeeds, drawing \<open>7, 6\<close>, and its \<^verbatim>\<open>State()\<close> reports the entropy
  \<open>9, 8, 7, 6\<close>: more than its handshake drew.
\<close>

theorem capture_entropy_counterexample:
  "Server 0 0 None ex_impl ex_w0 = (Inr ex_s1, [], ex_w1) \<and>
   Server 1 0 None ex_impl ex_w1 = (Inr ex_b1, [], ex_bw1) \<and>
   fst (Handshake ex_b1 ex_bw1) = None \<and>
   Handshake ex_s1 ex_bw2 = (None, ex_aevs, ex_a2, ex_aw2) \<and>
   rand_bytes ex_aevs = [7, 6] \<and>
   State_of ex_a2 ex_aw2 =
     Inr \<lparr>conn = [1, 2, 3], rand = [9, 8, 7, 6], inSeq = seq_a, outSeq = seq_b\<rparr>"
proof -
  have h1: "Server 0 0 None ex_impl ex_w0 = (Inr ex_s1, [], ex_w1)"
    by (simp add: Server_def ex_s1_def ex_w1_def split: prod.splits)
  have h2: "Server 1 0 None ex_impl ex_w1 = (Inr ex_b1, [], ex_bw1)"
    by (simp add: Server_def ex_b1_def ex_bw1_def split: prod.splits)
  have h3: "fst (Handshake ex_b1 ex_bw1) = None"
    by (simp add: model_defs ex_defs)
  have "fst (Handshake ex_s1 ex_bw2) = None"
    by (simp add: model_defs ex_defs)
  then have h4: "Handshake ex_s1 ex_bw2 = (None, ex_aevs, ex_a2, ex_aw2)"
    by (simp add: ex_aevs_def ex_a2_def ex_aw2_def prod_eq_iff)
  have h5: "rand_bytes ex_aevs = [7, 6]"
    by (simp add: model_defs ex_defs)
  have h6: "State_of ex_a2 ex_aw2 =
     Inr \<lparr>conn = [1, 2, 3], rand = [9, 8, 7, 6], inSeq = seq_a, outSeq = seq_b\<rparr>"
    by (simp add: model_defs ex_defs)
  from h1 h2 h3 h4 h5 h6 show ?thesis by simp
qed

text \<open>
  Claim C1, amended: for a capture session whose \<^verbatim>\<open>Handshake()\<close> runs in the store its
  constructor returned (nothing else has drawn through the configuration's \<^verbatim>\<open>Rand\<close> in
  between) and succeeds, the snapshot of \<^verbatim>\<open>State()\<close> has as transcript exactly the bytes
  the handshake received from its connection, in order, which are exactly the bytes that
  left the transport, and as entropy exactly the bytes the handshake drew from the
  randomness source, in order. The hypothesis on the store says that the two buffers the
  constructor allocates are new: the source found in \<^verbatim>\<open>cfg.Rand\<close> reaches only buffers
  allocated before (\<open>world_ok\<close> gives it, and every operation of the package keeps
  \<open>world_ok\<close>).
\<close>

theorem capture_state_exact:
  assumes fresh: "\<forall>b\<in>reader_bufs (config_rand cfg w). b < next_buf w"
    and build: "Server c cfg None impl w = (Inr s, evs0, w1)"
    and hs: "Handshake s w1 = (None, evs, s', w2)"
    and st: "State_of s' w2 = Inr st"
  shows "conn st = conn_bytes evs \<and> transport_bytes evs = conn_bytes evs \<and>
         transport_only c evs \<and> rand st = rand_bytes evs"
proof -
  from build have init: "clientInitialize c cfg impl w = (s, w1)"
    by (auto simp: Server_def split: prod.splits)
  note wired = clientInitialize_wired [OF fresh init]
  from init have s: "\<not> handshaked s"
    and eng: "\<not> e_done (engines w1 (tlsConn s))" "e_err (engines w1 (tlsConn s)) = None"
      "e_conn (engines w1 (tlsConn s)) = next_ovconn w" "e_cfg (engines w1 (tlsConn s)) = cfg"
    and empty: "bufs w1 (connBuffer s) = []" "bufs w1 (randBuffer s) = []"
    unfolding clientInitialize_result by auto
  from Handshake_capture [OF wired s eng hs] empty
  have "bufs w2 (connBuffer s') = conn_bytes evs" "bufs w2 (randBuffer s') = rand_bytes evs"
    "transport_bytes evs = conn_bytes evs" "transport_only c evs"
    by simp_all
  moreover from st have "conn st = bufs w2 (connBuffer s')" "rand st = bufs w2 (randBuffer s')"
    by (auto simp: State_of_def split: sum.splits)
  ultimately show ?thesis by simp
qed

text \<open>The capture session of the example: three bytes read, two drawn, both reported.\<close>

theorem capture_state_exact_witness:
  "reader_bufs (config_rand 0 ex_w0) = {} \<and>
   Server 0 0 None ex_impl ex_w0 = (Inr ex_s1, [], ex_w1) \<and>
   Handshake ex_s1 ex_w1 = (None, ex_evs, ex_s2, ex_w2) \<and>
   State_of ex_s2 ex_w2 = Inr ex_state \<and>
   conn_bytes ex_evs = [1, 2, 3] \<and> rand_bytes ex_evs = [9, 8] \<and>
   conn ex_state = conn_bytes ex_evs \<and> transport_bytes ex_evs = conn_bytes ex_evs \<and>
   transport_only 0 ex_evs \<and> rand ex_state = rand_bytes ex_evs"
proof -
  have h0: "reader_bufs (config_rand 0 ex_w0) = {}"
    by (simp add: config_rand_def ex_w0_def)
  then have h1: "\<forall>b\<in>reader_bufs (config_rand 0 ex_w0). b < next_buf ex_w0"
    by simp
  have h2: "Server 0 0 None ex_impl ex_w0 = (Inr ex_s1, [], ex_w1)"
    by (simp add: Server_def ex_s1_def ex_w1_def split: prod.splits)
  have "fst (Handshake ex_s1 ex_w1) = None"
    by (simp add: model_defs ex_defs)
  then have h3: "Handshake ex_s1 ex_w1 = (None, ex_evs, ex_s2, ex_w2)"
    by (simp add: ex_evs_def ex_s2_def ex_w2_def prod_eq_iff)
  have h4: "State_of ex_s2 ex_w2 = Inr ex_state"
    by (simp add: model_defs ex_defs)
  have h5: "conn_bytes ex_evs = [1, 2, 3]" "rand_bytes ex_evs = [9, 8]"
    by (simp_all add: model_defs ex_defs)
  from capture_state_exact [OF h1 h2 h3 h4] h0 h2 h3 h4 h5 show ?thesis
    by simp
qed

subsection \<open>C2: replay before live\<close>

text \<open>
  Claim C2: in the handshake of a resuming session, every read of the engine on its
  connection is served from the recorded transcript, byte for byte and in order, until
  all of it is consumed, and no live read happens before; once it is consumed the engine
  receives what the live transport returns. The same holds for the recorded entropy and
  the live randomness source. The hypotheses say that the buffers and multi-readers
  \<^verbatim>\<open>clientResume\<close> allocates are new, as in C1. In the witness the engine asks for more
  entropy than was recorded: its second draw is the first live read.
\<close>

theorem resume_replay_first:
  assumes freshb: "\<forall>b\<in>reader_bufs (config_rand cfg w). b < next_buf w"
    and freshm: "\<forall>m\<in>reader_multis (config_rand cfg w). m < next_multi w"
    and build: "Server c cfg (Some st) impl w = (res, evs, w')"
  shows "conn_replay_first (conn st) evs \<and> rand_replay_first (rand st) evs"
proof -
  let ?rnd = "config_rand cfg w"
  let ?rb = "next_buf w" and ?cb = "Suc (next_buf w)"
  let ?rm = "next_multi w" and ?cm = "Suc (next_multi w)"
  let ?w8 = "resume_start c cfg st impl w"
  from build have "clientResume c cfg st impl w = (res, evs, w')"
    by (simp add: Server_def)
  from resume_handshake_events [OF this] obtain r i out v where
    run: "run (hs_script impl) (next_ovconn w) cfg ?w8 = ((r, i, out), evs, v)"
    by auto
  from freshb freshm have fresh:
    "?rb \<notin> reader_bufs ?rnd" "?cb \<notin> reader_bufs ?rnd"
    "?rm \<notin> reader_multis ?rnd" "?cm \<notin> reader_multis ?rnd"
    by auto
  then have wired: "replay_wired ?w8 (next_ovconn w) cfg c ?cb ?cm ?rb ?rm"
    by (auto simp: replay_wired_def resume_start_def)
  have pend: "replay_pending ?w8 ?cm ?cb" "replay_pending ?w8 ?rm ?rb"
    by (simp_all add: replay_pending_def resume_start_def)
  from replay_run [OF wired pend run] show ?thesis
    by (simp add: resume_start_def)
qed

text \<open>Resuming from the captured snapshot with the engine that reads in other pieces.\<close>

theorem resume_replay_first_witness:
  "reader_bufs (config_rand 0 ex_w2) = {1} \<and> next_buf ex_w2 = 2 \<and>
   reader_multis (config_rand 0 ex_w2) = {} \<and>
   ex_evs4 = [ConnRead [1, 2] [], ConnRead [3] [], RandRead [9, 8] [],
              RandRead [7] [(CryptoRand, [7])]] \<and>
   conn_replay_first (conn ex_state) ex_evs4 \<and> rand_replay_first (rand ex_state) ex_evs4"
proof -
  have h0: "reader_bufs (config_rand 0 ex_w2) = {1}" "next_buf ex_w2 = 2"
    "reader_multis (config_rand 0 ex_w2) = {}"
    by (simp_all add: model_defs ex_defs)
  then have h1: "\<forall>b\<in>reader_bufs (config_rand 0 ex_w2). b < next_buf ex_w2"
    and h2: "\<forall>m\<in>reader_multis (config_rand 0 ex_w2). m < next_multi ex_w2"
    by simp_all
  have h3: "Server 1 0 (Some ex_state) ex_impl2 ex_w2 =
      (fst (Server 1 0 (Some ex_state) ex_impl2 ex_w2), ex_evs4,
       snd (snd (Server 1 0 (Some ex_state) ex_impl2 ex_w2)))"
    by (simp add: ex_evs4_def)
  have h4: "ex_evs4 = [ConnRead [1, 2] [], ConnRead [3] [], RandRead [9, 8] [],
              RandRead [7] [(CryptoRand, [7])]]"
    by (simp add: model_defs ex_defs)
  from resume_replay_first [OF h1 h2 h3] h0 h4 show ?thesis
    by simp
qed

subsection \<open>C3: the counters of a resumed session\<close>

text \<open>
  Claim C3: when the constructor returns a resumed session, the counters of its engine
  are the saved \<^verbatim>\<open>inSeq\<close> and \<^verbatim>\<open>outSeq\<close>, whatever the replayed handshake had counted, the
  session is marked as handshaked, and \<^verbatim>\<open>Handshake()\<close> on it returns \<^verbatim>\<open>nil\<close> with no read or
  write of the engine and no change of session or store. In the witness the replayed
  handshake ends with the counters 1 and 2, and the engine holds the saved 7 and 7.
\<close>

theorem resume_injects_counters:
  assumes "Server c cfg (Some st) impl w = (Inr s, evs, w')"
  shows "e_in (engines w' (tlsConn s)) = inSeq st \<and> e_out (engines w' (tlsConn s)) = outSeq st \<and>
         handshaked s \<and> Handshake s w' = (None, [], s, w')"
proof -
  from assms have build: "clientResume c cfg st impl w = (Inr s, evs, w')"
    by (simp add: Server_def)
  obtain r evs1 w9 where th: "tls_Handshake (next_engine w) (resume_start c cfg st impl w) = (r, evs1, w9)"
    by (metis prod.exhaust)
  from build th have "e_in (engines w' (tlsConn s)) = inSeq st \<and>
      e_out (engines w' (tlsConn s)) = outSeq st \<and> handshaked s"
    by (auto simp: clientResume_unfold setSeq_eq Let_def split: option.splits sum.splits if_splits)
  then show ?thesis
    by (simp add: Handshake_def)
qed

text \<open>Resuming from the snapshot with the counters 7 and 7.\<close>

theorem resume_injects_counters_witness:
  "Server 1 0 (Some ex_saved) ex_impl ex_w2 = (Inr ex_s3, ex_evs3, ex_w3) \<and>
   fst (run ex_script 1 0 (resume_start 1 0 ex_saved ex_impl ex_w2)) = (None, seq_a, seq_b) \<and>
   e_in (engines ex_w3 (tlsConn ex_s3)) = seq_c \<and> e_out (engines ex_w3 (tlsConn ex_s3)) = seq_c \<and>
   handshaked ex_s3 \<and> Handshake ex_s3 ex_w3 = (None, [], ex_s3, ex_w3)"
proof -
  have "fst (run ex_script 1 0 (resume_start 1 0 ex_saved ex_impl ex_w2)) = (None, seq_a, seq_b)"
    by (simp add: resume_start_def model_defs ex_defs)
  with resume_injects_counters [OF ex_resume] ex_resume show ?thesis
    by (simp add: ex_saved_def)
qed

subsection \<open>C4: a resuming handshake writes nothing\<close>

text \<open>
  Claim C4: whatever the constructor of a resuming session returns, nothing was sent on
  any transport, and every write of the handshake went to the discarding writer.
\<close>

theorem resume_never_writes:
  assumes "Server c cfg (Some st) impl w = (res, evs, w')"
  shows "sent w' = sent w \<and> discarded evs"
proof -
  let ?w8 = "resume_start c cfg st impl w"
  from assms have build: "clientResume c cfg st impl w = (res, evs, w')"
    by (simp add: Server_def)
  obtain r evs1 w9 where th: "tls_Handshake (next_engine w) ?w8 = (r, evs1, w9)"
    by (metis prod.exhaust)
  from tls_Handshake_fresh [OF resume_start_engine(1,2) th] obtain i out v where
    run: "run (hs_script impl) (next_ovconn w) cfg ?w8 = ((r, i, out), evs1, v)" and
    w9: "sent w9 = sent v"
    by (auto simp: resume_start_engine)
  have "oc_OverrideWriter (ovconns ?w8 (next_ovconn w)) = Some Discard"
    by (simp add: resume_start_def)
  from run_discard [OF this run] w9 have a: "sent w9 = sent w" "discarded evs1"
    by (simp_all add: resume_start_def)
  from build th a show ?thesis
    by (auto simp: clientResume_unfold setSeq_eq Let_def split: option.splits sum.splits if_splits)
qed

text \<open>The resuming handshake writes one byte; the capture before it had sent that byte on transport 0, and transport 1 has seen nothing.\<close>

theorem resume_never_writes_witness:
  "Server 1 0 (Some ex_saved) ex_impl ex_w2 = (Inr ex_s3, ex_evs3, ex_w3) \<and>
   ex_evs3 = [ConnRead [1, 2, 3] [], RandRead [9, 8] [], ConnWrite [42] None] \<and>
   sent ex_w3 = sent ex_w2 \<and> sent ex_w2 0 = [42] \<and> sent ex_w3 1 = [] \<and> discarded ex_evs3"
proof -
  have "ex_evs3 = [ConnRead [1, 2, 3] [], RandRead [9, 8] [], ConnWrite [42] None]"
    by (simp add: model_defs ex_defs)
  moreover have "sent ex_w2 0 = [42]" "sent ex_w2 1 = []"
    by (simp_all add: model_defs ex_defs)
  ultimately show ?thesis
    using resume_never_writes [OF ex_resume] ex_resume by simp
qed

subsection \<open>C5: a failed capture\<close>

text \<open>
  Claim C5: when \<^verbatim>\<open>Handshake()\<close> of a capture session (not yet handshaked, both wrappers
  present) returns an error, it is the error of the engine's handshake, the session now
  refers to two empty buffers, and a \<^verbatim>\<open>State()\<close> that follows reports an empty transcript
  and an empty entropy. In the witness the failed handshake had read three bytes and
  drawn two.
\<close>

theorem failed_capture_discards:
  assumes nh: "\<not> handshaked s" and ov: "overrideRand s \<noteq> None" "overrideConn s \<noteq> None"
    and hs: "Handshake s w = (Some f, evs, s', w')"
  shows "(\<exists>msg. f = Err msg \<and> fst (tls_Handshake (tlsConn s) w) = Some msg) \<and>
         bufs w' (connBuffer s') = [] \<and> bufs w' (randBuffer s') = [] \<and>
         (\<forall>x. State_of s' w' = Inr x \<longrightarrow> conn x = [] \<and> rand x = [])"
proof -
  from Handshake_not_handshaked_failure [OF nh ov hs] obtain msg where f: "f = Err msg"
    by auto
  from Handshake_failure [OF nh hs [unfolded f]] obtain w1 where
    th: "tls_Handshake (tlsConn s) w = (Some msg, evs, w1)" and
    s': "s' = s\<lparr>connBuffer := next_buf w1, randBuffer := Suc (next_buf w1)\<rparr>" and
    w': "w' = w1\<lparr>bufs := (bufs w1)(next_buf w1 := [], Suc (next_buf w1) := []),
                   next_buf := Suc (Suc (next_buf w1))\<rparr>"
    by auto
  from s' w' have "bufs w' (connBuffer s') = []" "bufs w' (randBuffer s') = []"
    by simp_all
  with f th show ?thesis
    by (auto simp: State_of_eq split: if_splits)
qed

text \<open>The capture session on transport 2.\<close>

theorem failed_capture_discards_witness:
  "\<not> handshaked ex_f1 \<and> overrideRand ex_f1 \<noteq> None \<and> overrideConn ex_f1 \<noteq> None \<and>
   Handshake ex_f1 ex_fw1 = (Some (Err ''bad record''), ex_fevs, ex_f2, ex_fw2) \<and>
   conn_bytes ex_fevs = [6, 7, 8] \<and> rand_bytes ex_fevs = [9, 8] \<and>
   fst (tls_Handshake (tlsConn ex_f1) ex_fw1) = Some ''bad record'' \<and>
   bufs ex_fw2 (connBuffer ex_f2) = [] \<and> bufs ex_fw2 (randBuffer ex_f2) = [] \<and>
   State_of ex_f2 ex_fw2 = Inr \<lparr>conn = [], rand = [], inSeq = seq_a, outSeq = seq_b\<rparr>"
proof -
  have h: "\<not> handshaked ex_f1" "overrideRand ex_f1 \<noteq> None" "overrideConn ex_f1 \<noteq> None"
    by (simp_all add: ex_f1_def clientInitialize_result)
  have ev: "conn_bytes ex_fevs = [6, 7, 8]" "rand_bytes ex_fevs = [9, 8]"
    by (simp_all add: model_defs ex_defs)
  have st: "State_of ex_f2 ex_fw2 = Inr \<lparr>conn = [], rand = [], inSeq = seq_a, outSeq = seq_b\<rparr>"
    by (simp add: model_defs ex_defs)
  from failed_capture_discards [OF h ex_failed] h ex_failed ev st show ?thesis
    by simp
qed

subsection \<open>C6: the snapshot before a successful handshake\<close>

text \<open>
  Claim C6, as stated, fails: \<^verbatim>\<open>State()\<close> reads the counters from the engine and nothing
  resets them, so after a failed handshake the snapshot has empty byte sequences and the
  counters at which the engine stopped: here 1 and 2, not zero.
\<close>

theorem state_counters_counterexample:
  "Server 2 0 None ex_impl ex_w0 = (Inr ex_f1, [], ex_fw1) \<and>
   Handshake ex_f1 ex_fw1 = (Some (Err ''bad record''), ex_fevs, ex_f2, ex_fw2) \<and>
   State_of ex_f2 ex_fw2 = Inr \<lparr>conn = [], rand = [], inSeq = seq_a, outSeq = seq_b\<rparr> \<and>
   seq_a \<noteq> zero_seq \<and> seq_b \<noteq> zero_seq"
proof -
  have "Server 2 0 None ex_impl ex_w0 = (Inr ex_f1, [], ex_fw1)"
    by (simp add: Server_def ex_f1_def ex_fw1_def split: prod.splits)
  moreover have "State_of ex_f2 ex_fw2 = Inr \<lparr>conn = [], rand = [], inSeq = seq_a, outSeq = seq_b\<rparr>"
    by (simp add: model_defs ex_defs)
  moreover have "seq_a \<noteq> zero_seq" "seq_b \<noteq> zero_seq"
    by (simp_all add: seq_a_def seq_b_def zero_seq_def)
  ultimately show ?thesis
    using ex_failed by simp
qed

text \<open>
  Claim C6, amended: on a capture session without a successful handshake, \<^verbatim>\<open>State()\<close>
  reports an empty transcript and an empty entropy, both in the store its constructor
  returned and after a failed \<^verbatim>\<open>Handshake()\<close>; the counters are those of the engine: zero
  in the store the constructor returned, and after a failed handshake whatever the engine
  holds then.
\<close>

theorem state_before_success:
  "(seq_fields impl \<and> Server c cfg None impl w = (Inr s, evs0, w1) \<longrightarrow>
      State_of s w1 = Inr \<lparr>conn = [], rand = [], inSeq = zero_seq, outSeq = zero_seq\<rparr>) \<and>
   (\<not> handshaked t \<and> e_seq_fields (engines v (tlsConn t)) \<and>
    Handshake t v = (Some (Err msg), evs, t', v') \<longrightarrow>
      State_of t' v' = Inr \<lparr>conn = [], rand = [],
                            inSeq = e_in (engines v' (tlsConn t)),
                            outSeq = e_out (engines v' (tlsConn t))\<rparr>)"
proof (intro conjI impI)
  assume "seq_fields impl \<and> Server c cfg None impl w = (Inr s, evs0, w1)"
  then have "seq_fields impl" and "clientInitialize c cfg impl w = (s, w1)"
    by (auto simp: Server_def split: prod.splits)
  then show "State_of s w1 = Inr \<lparr>conn = [], rand = [], inSeq = zero_seq, outSeq = zero_seq\<rparr>"
    unfolding clientInitialize_result by (auto simp: State_of_eq)
next
  assume a: "\<not> handshaked t \<and> e_seq_fields (engines v (tlsConn t)) \<and>
    Handshake t v = (Some (Err msg), evs, t', v')"
  then have nh: "\<not> handshaked t" and sf: "e_seq_fields (engines v (tlsConn t))"
    and hs: "Handshake t v = (Some (Err msg), evs, t', v')"
    by simp_all
  from Handshake_failure [OF nh hs] obtain v1 where
    th: "tls_Handshake (tlsConn t) v = (Some msg, evs, v1)" and
    t': "t' = t\<lparr>connBuffer := next_buf v1, randBuffer := Suc (next_buf v1)\<rparr>" and
    v': "v' = v1\<lparr>bufs := (bufs v1)(next_buf v1 := [], Suc (next_buf v1) := []),
                   next_buf := Suc (Suc (next_buf v1))\<rparr>"
    by auto
  from tls_Handshake_wiring [OF th] sf have "e_seq_fields (engines v1 (tlsConn t))"
    by simp
  with t' v' show "State_of t' v' = Inr \<lparr>conn = [], rand = [],
                            inSeq = e_in (engines v' (tlsConn t)),
                            outSeq = e_out (engines v' (tlsConn t))\<rparr>"
    by (simp add: State_of_eq)
qed

text \<open>The new capture session on transport 0, and the failed one on transport 2.\<close>

theorem state_before_success_witness:
  "seq_fields ex_impl \<and> Server 0 0 None ex_impl ex_w0 = (Inr ex_s1, [], ex_w1) \<and>
   State_of ex_s1 ex_w1 = Inr \<lparr>conn = [], rand = [], inSeq = zero_seq, outSeq = zero_seq\<rparr> \<and>
   \<not> handshaked ex_f1 \<and> e_seq_fields (engines ex_fw1 (tlsConn ex_f1)) \<and>
   Handshake ex_f1 ex_fw1 = (Some (Err ''bad record''), ex_fevs, ex_f2, ex_fw2) \<and>
   State_of ex_f2 ex_fw2 =
     Inr \<lparr>conn = [], rand = [], inSeq = e_in (engines ex_fw2 (tlsConn ex_f1)),
          outSeq = e_out (engines ex_fw2 (tlsConn ex_f1))\<rparr>"
proof -
  have a: "seq_fields ex_impl" "Server 0 0 None ex_impl ex_w0 = (Inr ex_s1, [], ex_w1)"
    by (simp_all add: Server_def ex_impl_def ex_s1_def ex_w1_def split: prod.splits)
  have b: "\<not> handshaked ex_f1" "e_seq_fields (engines ex_fw1 (tlsConn ex_f1))"
    by (simp_all add: ex_f1_def ex_fw1_def clientInitialize_result ex_impl_def)
  from state_before_success [of ex_impl 0 0 ex_w0 ex_s1 "[]" ex_w1 ex_f1 ex_fw1
      "''bad record''" ex_fevs ex_f2 ex_fw2] a b ex_failed
  show ?thesis by simp
qed

subsection \<open>C7: Handshake is idempotent\<close>

text \<open>
  Claim C7: on a handshaked session \<^verbatim>\<open>Handshake()\<close> returns \<^verbatim>\<open>nil\<close> at once: the engine
  reads and writes nothing, session and store are unchanged. A session is handshaked after
  a successful \<^verbatim>\<open>Handshake()\<close>, and when the constructor returns it resumed.
\<close>

theorem handshake_idempotent:
  "(handshaked s \<longrightarrow> Handshake s w = (None, [], s, w)) \<and>
   (Handshake s w = (None, evs, s', w') \<longrightarrow>
      handshaked s' \<and> Handshake s' w' = (None, [], s', w')) \<and>
   (Server c cfg (Some st) impl v = (Inr t, evs2, v') \<longrightarrow>
      handshaked t \<and> Handshake t v' = (None, [], t, v'))"
proof (intro conjI impI)
  assume "handshaked s"
  then show "Handshake s w = (None, [], s, w)"
    by (simp add: Handshake_def)
next
  assume hs: "Handshake s w = (None, evs, s', w')"
  then have "handshaked s'"
    by (auto simp: Handshake_def NewBuffer_def Let_def
             split: if_splits prod.splits option.splits)
  then show "handshaked s'" and "Handshake s' w' = (None, [], s', w')"
    by (simp_all add: Handshake_def)
next
  assume "Server c cfg (Some st) impl v = (Inr t, evs2, v')"
  then have build: "clientResume c cfg st impl v = (Inr t, evs2, v')"
    by (simp add: Server_def)
  obtain r evs1 w9 where th: "tls_Handshake (next_engine v) (resume_start c cfg st impl v) = (r, evs1, w9)"
    by (metis prod.exhaust)
  from build th have "handshaked t"
    by (auto simp: clientResume_unfold Let_def split: option.splits sum.splits)
  then show "handshaked t" and "Handshake t v' = (None, [], t, v')"
    by (simp_all add: Handshake_def)
qed

text \<open>The capture session after its handshake, and the resumed session.\<close>

theorem handshake_idempotent_witness:
  "handshaked ex_s2 \<and> Handshake ex_s2 ex_w2 = (None, [], ex_s2, ex_w2) \<and>
   Handshake ex_s1 ex_w1 = (None, ex_evs, ex_s2, ex_w2) \<and> ex_evs \<noteq> [] \<and>
   Server 1 0 (Some ex_saved) ex_impl ex_w2 = (Inr ex_s3, ex_evs3, ex_w3) \<and>
   handshaked ex_s3 \<and> Handshake ex_s3 ex_w3 = (None, [], ex_s3, ex_w3)"
proof -
  have "fst (Handshake ex_s1 ex_w1) = None"
    by (simp add: model_defs ex_defs)
  then have h: "Handshake ex_s1 ex_w1 = (None, ex_evs, ex_s2, ex_w2)"
    by (simp add: ex_evs_def ex_s2_def ex_w2_def prod_eq_iff)
  have ne: "ex_evs \<noteq> []"
    by (simp add: model_defs ex_defs)
  from handshake_idempotent [of ex_s2 ex_w2 "[]" ex_s2 ex_w2 1 0 ex_saved ex_impl ex_w2 ex_s3 ex_evs3 ex_w3]
    handshake_idempotent [of ex_s1 ex_w1 ex_evs ex_s2 ex_w2 1 0 ex_saved ex_impl ex_w2 ex_s3 ex_evs3 ex_w3]
    h ne ex_resume
  show ?thesis by simp
qed

subsection \<open>C8: the configuration object\<close>

text \<open>
  Claim C8, as stated, fails: the constructor assigns the wrapped randomness source to
  the field \<^verbatim>\<open>Rand\<close> of the caller's configuration (\<^verbatim>\<open>cfg.Rand = ovRand\<close>). Here the field is
  \<^verbatim>\<open>nil\<close> before and holds the override reader of the new session after.
\<close>

theorem config_mutated_counterexample:
  "Server 0 0 None ex_impl ex_w0 = (Inr ex_s1, [], ex_w1) \<and>
   cfg_Rand ex_w0 0 = None \<and>
   cfg_Rand ex_w1 0 = Some (ROv 0 (RTee (RLive CryptoRand) 1) (RLive CryptoRand)) \<and>
   cfg_Rand ex_w1 0 \<noteq> cfg_Rand ex_w0 0"
proof -
  have "Server 0 0 None ex_impl ex_w0 = (Inr ex_s1, [], ex_w1)"
    by (simp add: Server_def ex_s1_def ex_w1_def split: prod.splits)
  moreover have "cfg_Rand ex_w0 0 = None"
    by (simp add: ex_w0_def)
  moreover have "cfg_Rand ex_w1 0 = Some (ROv 0 (RTee (RLive CryptoRand) 1) (RLive CryptoRand))"
    by (simp add: model_defs ex_defs)
  ultimately show ?thesis by simp
qed

text \<open>
  Claim C8, amended: every constructor call, on either path and whether it succeeds or
  not, leaves in \<^verbatim>\<open>cfg.Rand\<close> of the supplied configuration the override reader it built
  around the source found there (the tee into the new entropy buffer, or the multi-reader
  over the recorded entropy); the \<^verbatim>\<open>Rand\<close> of every other configuration is unchanged, and
  the engine is built with the supplied configuration object itself.
\<close>

theorem constructor_overwrites_config_rand:
  assumes "Server c cfg st impl w = (res, evs, w')"
  shows "cfg_Rand w' cfg =
           Some (ROv (next_ov w)
                  (case st of
                     None \<Rightarrow> RTee (config_rand cfg w) (Suc (next_buf w))
                   | Some x \<Rightarrow> RMulti (next_multi w) (RBuf (next_buf w)) (config_rand cfg w))
                  (config_rand cfg w)) \<and>
         (\<forall>k. k \<noteq> cfg \<longrightarrow> cfg_Rand w' k = cfg_Rand w k) \<and>
         e_cfg (engines w' (next_engine w)) = cfg"
proof (cases st)
  case None
  with assms have "w' = snd (clientInitialize c cfg impl w)"
    by (auto simp: Server_def split: prod.splits)
  with None show ?thesis
    unfolding clientInitialize_result by simp
next
  case (Some x)
  with assms have "clientResume c cfg x impl w = (res, evs, w')"
    by (simp add: Server_def)
  from clientResume_frame [OF this] Some show ?thesis
    by simp
qed

text \<open>Resuming on configuration 0, whose \<^verbatim>\<open>Rand\<close> held the wrapper of the capture session.\<close>

theorem constructor_overwrites_config_rand_witness:
  "Server 1 0 (Some ex_saved) ex_impl ex_w2 = (Inr ex_s3, ex_evs3, ex_w3) \<and>
   config_rand 0 ex_w2 = ROv 0 (RTee (RLive CryptoRand) 1) (RLive CryptoRand) \<and>
   cfg_Rand ex_w3 0 =
     Some (ROv 1 (RMulti 0 (RBuf 2) (ROv 0 (RTee (RLive CryptoRand) 1) (RLive CryptoRand)))
             (ROv 0 (RTee (RLive CryptoRand) 1) (RLive CryptoRand))) \<and>
   cfg_Rand ex_w3 1 = cfg_Rand ex_w2 1 \<and>
   e_cfg (engines ex_w3 1) = 0"
proof -
  have a: "config_rand 0 ex_w2 = ROv 0 (RTee (RLive CryptoRand) 1) (RLive CryptoRand)"
    "next_ov ex_w2 = 1" "next_multi ex_w2 = 0" "next_buf ex_w2 = 2" "next_engine ex_w2 = 1"
    by (simp_all add: model_defs ex_defs)
  from constructor_overwrites_config_rand [OF ex_resume] ex_resume a show ?thesis
    by simp
qed

subsection \<open>C9: an engine without the counter fields\<close>

text \<open>
  Claim C9, as stated, fails: with a \<^verbatim>\<open>crypto/tls\<close> whose \<^verbatim>\<open>tls.Conn\<close> lacks the counter
  fields, the constructor still returns a capture session and no error, and the
  incompatibility shows first in \<^verbatim>\<open>State()\<close>, as a panic.
\<close>

theorem engine_check_counterexample:
  "\<not> seq_fields ex_impl_old \<and>
   Server 0 0 None ex_impl_old ex_w0 = (Inr ex_s1, [], ex_ow1) \<and>
   State_of ex_s1 ex_ow1 = Inl (Panic ''reflect: call on zero Value'')"
proof -
  have "\<not> seq_fields ex_impl_old"
    by (simp add: ex_impl_old_def)
  moreover have "Server 0 0 None ex_impl_old ex_w0 = (Inr ex_s1, [], ex_ow1)"
    by (simp add: Server_def ex_s1_def ex_ow1_def clientInitialize_result)
  moreover have "State_of ex_s1 ex_ow1 = Inl (Panic ''reflect: call on zero Value'')"
    by (simp add: State_of_eq ex_s1_def ex_ow1_def clientInitialize_result ex_impl_old_def)
  ultimately show ?thesis by simp
qed

text \<open>
  Claim C9, amended: construction checks nothing about the engine. On the capture path
  it returns a session and no error for every engine, and with an engine that lacks the
  counter fields \<^verbatim>\<open>State()\<close> on that session panics. On the resume path such an engine
  never yields a session, and when its replayed handshake succeeds the constructor
  panics where it injects the counters, after the handshake.
\<close>

theorem construction_has_no_engine_check:
  "(\<exists>s w1. Server c cfg None impl w = (Inr s, [], w1) \<and>
       (\<not> seq_fields impl \<longrightarrow> State_of s w1 = Inl (Panic ''reflect: call on zero Value''))) \<and>
   (\<not> seq_fields impl \<longrightarrow>
       (\<forall>s. fst (Server c cfg (Some st) impl w) \<noteq> Inr s) \<and>
       (fst (tls_Handshake (next_engine w) (resume_start c cfg st impl w)) = None \<longrightarrow>
          fst (Server c cfg (Some st) impl w) = Inl (Panic ''reflect: call on zero Value'')))"
proof (intro conjI impI)
  show "\<exists>s w1. Server c cfg None impl w = (Inr s, [], w1) \<and>
       (\<not> seq_fields impl \<longrightarrow> State_of s w1 = Inl (Panic ''reflect: call on zero Value''))"
    by (simp add: Server_def clientInitialize_result State_of_eq)
next
  assume ns: "\<not> seq_fields impl"
  let ?w8 = "resume_start c cfg st impl w" and ?e = "next_engine w"
  obtain r evs1 w9 where th: "tls_Handshake ?e ?w8 = (r, evs1, w9)"
    by (metis prod.exhaust)
  from tls_Handshake_wiring [OF th] ns have "\<not> e_seq_fields (engines w9 ?e)"
    by (simp add: resume_start_def)
  then have ss: "setSeq ?e i out (w9\<lparr>ov_attached := a, ovconns := b\<rparr>)
      = Inl (Panic ''reflect: call on zero Value'')" for i out a b
    by (simp add: setSeq_eq)
  from th ss show "\<forall>s. fst (Server c cfg (Some st) impl w) \<noteq> Inr s"
    by (cases r) (simp_all add: Server_def clientResume_unfold)
  assume "fst (tls_Handshake ?e ?w8) = None"
  with th ss show "fst (Server c cfg (Some st) impl w) = Inl (Panic ''reflect: call on zero Value'')"
    by (simp add: Server_def clientResume_unfold)
qed

text \<open>The engine without counter fields, on both paths.\<close>

theorem construction_has_no_engine_check_witness:
  "\<not> seq_fields ex_impl_old \<and>
   Server 0 0 None ex_impl_old ex_w0 = (Inr ex_s1, [], ex_ow1) \<and>
   State_of ex_s1 ex_ow1 = Inl (Panic ''reflect: call on zero Value'') \<and>
   fst (tls_Handshake (next_engine ex_w2) (resume_start 1 0 ex_saved ex_impl_old ex_w2)) = None \<and>
   fst (Server 1 0 (Some ex_saved) ex_impl_old ex_w2) = Inl (Panic ''reflect: call on zero Value'')"
proof -
  have a: "\<not> seq_fields ex_impl_old"
    by (simp add: ex_impl_old_def)
  have b: "Server 0 0 None ex_impl_old ex_w0 = (Inr ex_s1, [], ex_ow1)"
    by (simp add: Server_def ex_s1_def ex_ow1_def clientInitialize_result)
  have c: "fst (tls_Handshake (next_engine ex_w2) (resume_start 1 0 ex_saved ex_impl_old ex_w2)) = None"
    by (simp add: resume_start_def model_defs ex_defs)
  from construction_has_no_engine_check [of 0 0 ex_impl_old ex_w0 ex_saved] a b
  have d: "State_of ex_s1 ex_ow1 = Inl (Panic ''reflect: call on zero Value'')"
    by auto
  from construction_has_no_engine_check [of 1 0 ex_impl_old ex_w2 ex_saved] a c
  have "fst (Server 1 0 (Some ex_saved) ex_impl_old ex_w2) = Inl (Panic ''reflect: call on zero Value'')"
    by blast
  with a b c d show ?thesis by simp
qed

subsection \<open>C10: Client is Server\<close>

text \<open>
  Claim C10: \<^verbatim>\<open>Client\<close> and \<^verbatim>\<open>Server\<close> return the same result and the same store on every
  input, and a call of \<^verbatim>\<open>Client\<close> creates exactly one engine, a server-side one.
\<close>

theorem client_is_server:
  "Client c cfg st impl w = Server c cfg st impl w \<and>
   next_engine (snd (snd (Client c cfg st impl w))) = Suc (next_engine w) \<and>
   e_role (engines (snd (snd (Client c cfg st impl w))) (next_engine w)) = ServerSide"
proof (cases st)
  case None
  then show ?thesis
    by (simp add: Client_def Server_def clientInitialize_result)
next
  case (Some x)
  obtain res evs w' where r: "clientResume c cfg x impl w = (res, evs, w')"
    by (metis prod.exhaust)
  from clientResume_frame [OF r] r Some show ?thesis
    by (simp add: Client_def Server_def)
qed

end
